theory Spec2Isabelle
  imports Main "HOL-Library.Char_ord" "HOL-Library.List_Lexorder" "HOL-Library.Multiset"
begin

section \<open>Client.Do: executing a request and classifying the response\<close>

text \<open>
  Go strings are byte sequences; \<^typ>\<open>string\<close> (a list of 8-bit characters) models them.

  The response body is a stream. Reading it to the end (\<^verbatim>\<open>ioutil.ReadAll\<close>) consumes
  it and yields the bytes still pending, together with the read error the stream ends
  with, if any. A nil \<^verbatim>\<open>Body\<close> is \<open>None\<close>.
\<close>

record 'e body_stream =
  pending :: string
  read_err :: "'e option"

record 'e response =
  StatusCode :: int
  Body :: "'e body_stream option"

text \<open>The errors \<^verbatim>\<open>Do\<close> returns. The first three and \<open>ParseBodyError\<close> are the
  \<^verbatim>\<open>fmt.Errorf\<close>/\<^verbatim>\<open>errors.New\<close> values of the source, each wrapping its cause;
  \<open>JiraRequestError\<close> is the value of \<^verbatim>\<open>NewJiraRequestError(httpResp)\<close>.\<close>

datatype ('e, 'pe, 'je) do_error =
    HttpRequestError 'e      \<comment> \<open>"error making http request: %w"\<close>
  | NoResponseReturned       \<comment> \<open>"no response returned"\<close>
  | ReadBodyError 'e         \<comment> \<open>"failed to read body: %w"\<close>
  | ParseBodyError 'pe       \<comment> \<open>"failed to parse body: %w"\<close>
  | JiraRequestError 'je

datatype go_panic = NilDereference | NilMapAssignment | IndexOutOfRange

text \<open>\<^verbatim>\<open>ioutil.ReadAll(httpResp.Body)\<close>: the bytes read, the error, and the drained stream
  left behind.\<close>

definition ReadAll :: "'e body_stream \<Rightarrow> string \<times> 'e option \<times> 'e body_stream" where
  "ReadAll b = (pending b, read_err b, b\<lparr>pending := []\<rparr>)"

text \<open>\<^verbatim>\<open>ioutil.NopCloser(bytes.NewBuffer(body))\<close>: a fresh in-memory stream over the bytes.\<close>

definition NopCloser_NewBuffer :: "string \<Rightarrow> 'e body_stream" where
  "NopCloser_NewBuffer bs = \<lparr>pending = bs, read_err = None\<rparr>"

text \<open>
  \<^verbatim>\<open>Client.Do\<close>. The parameters stand for code outside the function:
  \<^item> \<open>client_do\<close>: the outcome of \<^verbatim>\<open>c.client.Do(req)\<close>, a response pointer (nil is
    \<open>None\<close>) and an error (nil is \<open>None\<close>);
  \<^item> \<open>ParseBytes\<close>: \<^verbatim>\<open>fastjson.Parser.ParseBytes\<close>, which returns a nil value with its
    error;
  \<^item> \<open>NewJiraRequestError\<close>: the constructor of the API error. It receives the response
    pointer, so it returns the response as it leaves it, next to the error value.

  The result is the triple the Go function returns, or a panic
  (\<^verbatim>\<open>ReadAll\<close> on a nil body).
\<close>

definition Do ::
  "(string \<Rightarrow> 'pe + 'v) \<Rightarrow> ('e response \<Rightarrow> 'je \<times> 'e response) \<Rightarrow>
   ('e response option \<times> 'e option) \<Rightarrow>
   go_panic + ('v option \<times> 'e response option \<times> ('e, 'pe, 'je) do_error option)" where
  "Do ParseBytes NewJiraRequestError client_do =
    (case client_do of
      (httpResp, Some err) \<Rightarrow> Inr (None, httpResp, Some (HttpRequestError err))
    | (None, None) \<Rightarrow> Inr (None, None, Some NoResponseReturned)
    | (Some resp, None) \<Rightarrow>
        (case Body resp of
          None \<Rightarrow> Inl NilDereference
        | Some b \<Rightarrow>
            (case ReadAll b of
              (body, Some err, b') \<Rightarrow>
                Inr (None, Some (resp\<lparr>Body := Some b'\<rparr>), Some (ReadBodyError err))
            | (body, None, b') \<Rightarrow>
                (let resp1 = resp\<lparr>Body := Some (NopCloser_NewBuffer body)\<rparr> in
                 case ParseBytes body of
                   Inl perr \<Rightarrow> Inr (None, Some resp1, Some (ParseBodyError perr))
                 | Inr val \<Rightarrow>
                     if \<not> (200 \<le> StatusCode resp1 \<and> StatusCode resp1 \<le> 299)
                     then (case NewJiraRequestError resp1 of
                             (jerr, resp2) \<Rightarrow> Inr (Some val, Some resp2, Some (JiraRequestError jerr)))
                     else Inr (Some val, Some resp1, None)))))"

text \<open>
  What a caller gets who reads the body of a response to the end: the bytes and the
  error of the read (nil is \<open>None\<close>); \<open>None\<close> for a nil body.
\<close>

definition read_again :: "'e response \<Rightarrow> (string \<times> 'e option) option" where
  "read_again r =
    (case Body r of
       None \<Rightarrow> None
     | Some b \<Rightarrow> (case ReadAll b of (bytes, err, b') \<Rightarrow> Some (bytes, err)))"

text \<open>A small parser used to run the model: only the text \<open>{}\<close> is JSON.\<close>

definition demo_parser :: "string \<Rightarrow> string + unit" where
  "demo_parser s = (if s = ''{}'' then Inr () else Inl ''cannot parse JSON'')"

text \<open>Two constructors of the API error for running the model. Both keep the status;
  the first leaves the response as it is, the second reads its body to the end.\<close>

definition demo_api_error :: "'e response \<Rightarrow> int \<times> 'e response" where
  "demo_api_error r = (StatusCode r, r)"

definition demo_api_error_reading :: "'e response \<Rightarrow> int \<times> 'e response" where
  "demo_api_error_reading r =
    (StatusCode r,
     r\<lparr>Body := (case Body r of None \<Rightarrow> None | Some b \<Rightarrow> Some (snd (snd (ReadAll b))))\<rparr>)"

text \<open>
  The specification has every response with a status outside [200,299] yield the
  structured API error, also when the body is not JSON. The predicate says that the
  error returned is the API error.
\<close>

definition returns_api_error ::
  "go_panic + ('v option \<times> 'e response option \<times> ('e, 'pe, 'je) do_error option) \<Rightarrow> bool" where
  "returns_api_error res =
    (case res of
      Inr (_, _, Some (JiraRequestError _)) \<Rightarrow> True
    | _ \<Rightarrow> False)"

section \<open>The string functions the client uses\<close>

text \<open>
  The functions of Go's \<^verbatim>\<open>strings\<close> package that the source calls, on byte strings.
  Every separator and cut set the source passes is a single ASCII byte
  (\<open>/\<close>, \<open>&\<close>, \<open>+\<close>, \<open>=\<close>, \<open>?\<close>, \<open>#\<close>), so the byte-wise functions below agree with the
  rune-wise Go ones on every call the source makes.
\<close>

definition HasPrefix :: "string \<Rightarrow> string \<Rightarrow> bool" where
  "HasPrefix s p = (take (length p) s = p)"

definition HasSuffix :: "string \<Rightarrow> string \<Rightarrow> bool" where
  "HasSuffix s p = (length p \<le> length s \<and> drop (length s - length p) s = p)"

definition TrimLeft :: "string \<Rightarrow> char \<Rightarrow> string" where
  "TrimLeft s c = dropWhile (\<lambda>x. x = c) s"

definition TrimRight :: "string \<Rightarrow> char \<Rightarrow> string" where
  "TrimRight s c = rev (dropWhile (\<lambda>x. x = c) (rev s))"

definition Trim :: "string \<Rightarrow> char \<Rightarrow> string" where
  "Trim s c = TrimLeft (TrimRight s c) c"

text \<open>\<^verbatim>\<open>strings.Replace(s, old, new, -1)\<close> for a one-byte \<open>old\<close>.\<close>

definition Replace :: "string \<Rightarrow> char \<Rightarrow> string \<Rightarrow> string" where
  "Replace s old new = concat (map (\<lambda>x. if x = old then new else [x]) s)"

fun Join :: "string list \<Rightarrow> string \<Rightarrow> string" where
  "Join [] sep = []"
| "Join [x] sep = x"
| "Join (x # y # ys) sep = x @ sep @ Join (y # ys) sep"

text \<open>\<^verbatim>\<open>strings.Cut(s, sep)\<close> for a one-byte separator: the text before the first
  separator, the text after it, and whether the separator occurs.\<close>

definition Cut :: "string \<Rightarrow> char \<Rightarrow> string \<times> string \<times> bool" where
  "Cut s sep =
    (if sep \<in> set s
     then (takeWhile (\<lambda>x. x \<noteq> sep) s, tl (dropWhile (\<lambda>x. x \<noteq> sep) s), True)
     else (s, [], False))"

text \<open>\<^verbatim>\<open>strings.Split(s, sep)\<close> for a one-byte separator: the pieces that repeated
  \<^verbatim>\<open>Cut\<close> yields, at least one.\<close>

fun Split :: "string \<Rightarrow> char \<Rightarrow> string list" where
  "Split [] sep = [[]]"
| "Split (x # xs) sep =
    (if x = sep then [] # Split xs sep
     else (case Split xs sep of
             [] \<Rightarrow> [[x]]
           | p # ps \<Rightarrow> (x # p) # ps))"

definition Contains :: "string \<Rightarrow> char \<Rightarrow> bool" where
  "Contains s c = (c \<in> set s)"

definition Count :: "string \<Rightarrow> char \<Rightarrow> nat" where
  "Count s c = length (filter (\<lambda>x. x = c) s)"

text \<open>\<^verbatim>\<open>strings.LastIndexByte\<close>: \<open>None\<close> is Go's \<open>-1\<close>.\<close>

fun LastIndexByte :: "string \<Rightarrow> char \<Rightarrow> nat option" where
  "LastIndexByte [] c = None"
| "LastIndexByte (x # xs) c =
    (case LastIndexByte xs c of
       Some i \<Rightarrow> Some (Suc i)
     | None \<Rightarrow> if x = c then Some 0 else None)"

text \<open>The numeric value of a byte.\<close>

definition byte :: "char \<Rightarrow> nat" where
  "byte c = of_char c"

definition is_lower :: "char \<Rightarrow> bool" where
  "is_lower c = (97 \<le> byte c \<and> byte c \<le> 122)"

definition is_upper :: "char \<Rightarrow> bool" where
  "is_upper c = (65 \<le> byte c \<and> byte c \<le> 90)"

definition is_digit :: "char \<Rightarrow> bool" where
  "is_digit c = (48 \<le> byte c \<and> byte c \<le> 57)"

definition upper_byte :: "char \<Rightarrow> char" where
  "upper_byte c = (if is_lower c then char_of (byte c - 32) else c)"

definition lower_byte :: "char \<Rightarrow> char" where
  "lower_byte c = (if is_upper c then char_of (byte c + 32) else c)"

text \<open>
  \<^verbatim>\<open>strings.ToUpper\<close>. On a string of ASCII bytes Go maps the letters a to z byte by
  byte; on any other string it maps \<^verbatim>\<open>unicode.ToUpper\<close> over the runes, which is the
  parameter \<open>unicode_upper\<close> here.
\<close>

definition ToUpper :: "(string \<Rightarrow> string) \<Rightarrow> string \<Rightarrow> string" where
  "ToUpper unicode_upper s =
    (if list_all (\<lambda>c. byte c < 128) s then map upper_byte s else unicode_upper s)"

text \<open>\<^verbatim>\<open>strings.ToLower\<close> on the bytes of a URL scheme, which are ASCII.\<close>

definition ToLower_ascii :: "string \<Rightarrow> string" where
  "ToLower_ascii s = map lower_byte s"

section \<open>URLs: the part of Go's net/url the client relies on\<close>

text \<open>
  \<^verbatim>\<open>url.URL\<close>, with the fields of the Go struct. \<open>User\<close> is a pointer in Go; nil is
  \<open>None\<close>.
\<close>

record Userinfo =
  ui_username :: string
  ui_password :: string
  ui_passwordSet :: bool

record URL =
  Scheme :: string
  Opaque :: string
  User :: "Userinfo option"
  Host :: string
  Path :: string
  RawPath :: string
  OmitHost :: bool
  ForceQuery :: bool
  RawQuery :: string
  Fragment :: string
  RawFragment :: string

definition empty_URL :: URL where
  "empty_URL = \<lparr>Scheme = [], Opaque = [], User = None, Host = [], Path = [], RawPath = [],
     OmitHost = False, ForceQuery = False, RawQuery = [], Fragment = [], RawFragment = []\<rparr>"

datatype url_error =
    InvalidControlCharacter           \<comment> \<open>"net/url: invalid control character in URL"\<close>
  | MissingProtocolScheme             \<comment> \<open>"missing protocol scheme"\<close>
  | FirstPathSegmentColon             \<comment> \<open>"first path segment in URL cannot contain colon"\<close>
  | EscapeError string                \<comment> \<open>"invalid URL escape"\<close>
  | InvalidSemicolonSeparator         \<comment> \<open>"invalid semicolon separator in query"\<close>
  | AuthorityError string             \<comment> \<open>any error of \<^verbatim>\<open>parseAuthority\<close>\<close>

text \<open>The escaping modes of net/url that the modelled paths use.\<close>

datatype encoding = encodePath | encodeQueryComponent | encodeFragment

definition is_alnum :: "char \<Rightarrow> bool" where
  "is_alnum c = (is_lower c \<or> is_upper c \<or> is_digit c)"

text \<open>\<^verbatim>\<open>shouldEscape(c, mode)\<close>, in the order of its cases.\<close>

definition shouldEscape :: "char \<Rightarrow> encoding \<Rightarrow> bool" where
  "shouldEscape c mode =
    (if is_alnum c then False
     else if c \<in> set ''-_.~'' then False
     else if c \<in> set ''$&+,/:;=?@''
       then (case mode of
               encodePath \<Rightarrow> c = CHR ''?''
             | encodeQueryComponent \<Rightarrow> True
             | encodeFragment \<Rightarrow> False)
     else if mode = encodeFragment \<and> c \<in> set ''!()*'' then False
     else True)"

definition ishex :: "char \<Rightarrow> bool" where
  "ishex c = (is_digit c \<or> (97 \<le> byte c \<and> byte c \<le> 102) \<or> (65 \<le> byte c \<and> byte c \<le> 70))"

definition unhex :: "char \<Rightarrow> nat" where
  "unhex c =
    (if is_digit c then byte c - 48
     else if 97 \<le> byte c \<and> byte c \<le> 102 then byte c - 97 + 10
     else if 65 \<le> byte c \<and> byte c \<le> 70 then byte c - 65 + 10
     else 0)"

definition upperhex :: "nat \<Rightarrow> char" where
  "upperhex n = ''0123456789ABCDEF'' ! (n mod 16)"

text \<open>
  \<^verbatim>\<open>unescape(s, mode)\<close>. The Go function checks the whole string first and then
  rewrites it; one pass does both here, failing at the first malformed \<open>%\<close> with the
  same error (the at most three bytes from the \<open>%\<close>).
\<close>

fun unescape :: "string \<Rightarrow> encoding \<Rightarrow> url_error + string" where
  "unescape [] mode = Inr []"
| "unescape (c # cs) mode =
    (if c = CHR ''%'' then
       (case cs of
          a # b # rest \<Rightarrow>
            if ishex a \<and> ishex b
            then (case unescape rest mode of
                    Inl e \<Rightarrow> Inl e
                  | Inr t \<Rightarrow> Inr (char_of (16 * unhex a + unhex b) # t))
            else Inl (EscapeError (take 3 (c # cs)))
        | _ \<Rightarrow> Inl (EscapeError (take 3 (c # cs))))
     else (case unescape cs mode of
             Inl e \<Rightarrow> Inl e
           | Inr t \<Rightarrow>
               Inr ((if c = CHR ''+'' \<and> mode = encodeQueryComponent then CHR '' '' else c) # t)))"

text \<open>\<^verbatim>\<open>escape(s, mode)\<close>.\<close>

definition escape_byte :: "encoding \<Rightarrow> char \<Rightarrow> string" where
  "escape_byte mode c =
    (if shouldEscape c mode then
       (if c = CHR '' '' \<and> mode = encodeQueryComponent then ''+''
        else [CHR ''%'', upperhex (byte c div 16), upperhex (byte c mod 16)])
     else [c])"

definition escape :: "string \<Rightarrow> encoding \<Rightarrow> string" where
  "escape s mode = concat (map (escape_byte mode) s)"

definition QueryEscape :: "string \<Rightarrow> string" where
  "QueryEscape s = escape s encodeQueryComponent"

definition QueryUnescape :: "string \<Rightarrow> url_error + string" where
  "QueryUnescape s = unescape s encodeQueryComponent"

text \<open>\<^verbatim>\<open>validEncoded(s, mode)\<close>.\<close>

definition validEncoded :: "string \<Rightarrow> encoding \<Rightarrow> bool" where
  "validEncoded s mode =
    list_all (\<lambda>c. c \<in> set ''!$&'()*+,;=:@[]%'' \<or> \<not> shouldEscape c mode) s"

text \<open>\<^verbatim>\<open>URL.EscapedPath\<close>: the raw path when it is a valid encoding of \<open>Path\<close>, the default
  encoding of \<open>Path\<close> otherwise.\<close>

definition EscapedPath :: "URL \<Rightarrow> string" where
  "EscapedPath u =
    (if RawPath u \<noteq> [] \<and> validEncoded (RawPath u) encodePath
        \<and> unescape (RawPath u) encodePath = Inr (Path u)
     then RawPath u
     else if Path u = ''*'' then ''*''
     else escape (Path u) encodePath)"

text \<open>\<^verbatim>\<open>URL.setPath\<close>: \<open>RawPath\<close> is kept only when the default encoding of the path
  differs from the text given.\<close>

definition setPath :: "URL \<Rightarrow> string \<Rightarrow> url_error + URL" where
  "setPath u p =
    (case unescape p encodePath of
       Inl e \<Rightarrow> Inl e
     | Inr path \<Rightarrow>
         Inr (u\<lparr>Path := path, RawPath := (if p = escape path encodePath then [] else p)\<rparr>))"

definition setFragment :: "URL \<Rightarrow> string \<Rightarrow> url_error + URL" where
  "setFragment u f =
    (case unescape f encodeFragment of
       Inl e \<Rightarrow> Inl e
     | Inr frag \<Rightarrow>
         Inr (u\<lparr>Fragment := frag,
                 RawFragment := (if f = escape frag encodeFragment then [] else f)\<rparr>))"

definition stringContainsCTLByte :: "string \<Rightarrow> bool" where
  "stringContainsCTLByte s = list_ex (\<lambda>c. byte c < 32 \<or> byte c = 127) s"

text \<open>\<^verbatim>\<open>getScheme\<close>: \<open>seen\<close> is \<^verbatim>\<open>rawURL[:i]\<close>, the bytes already scanned.\<close>

fun getScheme_from :: "string \<Rightarrow> string \<Rightarrow> string \<Rightarrow> url_error + (string \<times> string)" where
  "getScheme_from rawURL seen [] = Inr ([], rawURL)"
| "getScheme_from rawURL seen (c # cs) =
    (if is_lower c \<or> is_upper c then getScheme_from rawURL (seen @ [c]) cs
     else if is_digit c \<or> c = CHR ''+'' \<or> c = CHR ''-'' \<or> c = CHR ''.'' then
       (if seen = [] then Inr ([], rawURL) else getScheme_from rawURL (seen @ [c]) cs)
     else if c = CHR '':'' then
       (if seen = [] then Inl MissingProtocolScheme else Inr (seen, cs))
     else Inr ([], rawURL))"

definition getScheme :: "string \<Rightarrow> url_error + (string \<times> string)" where
  "getScheme rawURL = getScheme_from rawURL [] rawURL"

text \<open>
  \<^verbatim>\<open>parse(rawURL, viaRequest = false)\<close>. \<^verbatim>\<open>parseAuthority\<close>, which splits user
  information and host and validates the host, is the parameter \<open>parseAuthority\<close>.
\<close>

definition parse ::
  "(string \<Rightarrow> url_error + (Userinfo option \<times> string)) \<Rightarrow> string \<Rightarrow> url_error + URL" where
  "parse parseAuthority rawURL =
    (if stringContainsCTLByte rawURL then Inl InvalidControlCharacter
     else if rawURL = ''*'' then Inr (empty_URL\<lparr>Path := ''*''\<rparr>)
     else
       (case getScheme rawURL of
          Inl e \<Rightarrow> Inl e
        | Inr (scheme, rest0) \<Rightarrow>
           (let force = (HasSuffix rest0 ''?'' \<and> Count rest0 CHR ''?'' = 1);
                rest = (if force then butlast rest0 else fst (Cut rest0 CHR ''?''));
                url = empty_URL\<lparr>Scheme := ToLower_ascii scheme, ForceQuery := force,
                        RawQuery := (if force then [] else fst (snd (Cut rest0 CHR ''?'')))\<rparr>
            in
              if \<not> HasPrefix rest ''/'' \<and> Scheme url \<noteq> [] then Inr (url\<lparr>Opaque := rest\<rparr>)
              else if \<not> HasPrefix rest ''/'' \<and> Contains (fst (Cut rest CHR ''/'')) CHR '':''
                then Inl FirstPathSegmentColon
              else if (Scheme url \<noteq> [] \<or> \<not> HasPrefix rest ''///'') \<and> HasPrefix rest ''//'' then
                (let authority = takeWhile (\<lambda>x. x \<noteq> CHR ''/'') (drop 2 rest);
                     rest' = dropWhile (\<lambda>x. x \<noteq> CHR ''/'') (drop 2 rest)
                 in case parseAuthority authority of
                      Inl e \<Rightarrow> Inl e
                    | Inr (user, host) \<Rightarrow> setPath (url\<lparr>User := user, Host := host\<rparr>) rest')
              else if Scheme url \<noteq> [] \<and> HasPrefix rest ''/'' then setPath (url\<lparr>OmitHost := True\<rparr>) rest
              else setPath url rest)))"

text \<open>\<^verbatim>\<open>url.Parse\<close>: the fragment is cut off first and set last.\<close>

definition Parse ::
  "(string \<Rightarrow> url_error + (Userinfo option \<times> string)) \<Rightarrow> string \<Rightarrow> url_error + URL" where
  "Parse parseAuthority rawURL =
    (case Cut rawURL CHR ''#'' of
       (u, frag, _) \<Rightarrow>
         (case parse parseAuthority u of
            Inl e \<Rightarrow> Inl e
          | Inr url \<Rightarrow> if frag = [] then Inr url else setFragment url frag))"

text \<open>
  \<^verbatim>\<open>resolvePath(base, ref)\<close>. The loop runs over the elements between slashes; its
  state is the text written so far (which starts with \<open>/\<close>) and the flag \<open>first\<close>.
\<close>

fun resolve_elem :: "string \<times> bool \<Rightarrow> string \<Rightarrow> string \<times> bool" where
  "resolve_elem (dst, first) elem =
    (if elem = ''.'' then (dst, False)
     else if elem = ''..'' then
       (case LastIndexByte (tl dst) CHR ''/'' of
          None \<Rightarrow> (''/'', True)
        | Some index \<Rightarrow> (''/'' @ take index (tl dst), first))
     else ((if \<not> first then dst @ ''/'' else dst) @ elem, False))"

definition resolvePath :: "string \<Rightarrow> string \<Rightarrow> string" where
  "resolvePath base ref =
    (let full =
       (if ref = [] then base
        else if hd ref \<noteq> CHR ''/'' then
          (case LastIndexByte base CHR ''/'' of
             None \<Rightarrow> ref
           | Some i \<Rightarrow> take (Suc i) base @ ref)
        else ref)
     in if full = [] then []
        else
          (let elems = Split full CHR ''/'';
               dst = fst (foldl resolve_elem (''/'', True) elems);
               dst' = (if last elems = ''.'' \<or> last elems = ''..'' then dst @ ''/'' else dst)
           in if length dst' > 1 \<and> dst' ! 1 = CHR ''/'' then tl dst' else dst'))"

text \<open>
  \<^verbatim>\<open>URL.ResolveReference\<close>. Go ignores the error of the final \<^verbatim>\<open>setPath\<close> (the text
  it is given is built from escaped paths); where \<^verbatim>\<open>setPath\<close> fails it leaves the
  copy of the reference as it is, and so does the model.
\<close>

definition setPath_ignoring_error :: "URL \<Rightarrow> string \<Rightarrow> URL" where
  "setPath_ignoring_error u p = (case setPath u p of Inl e \<Rightarrow> u | Inr u' \<Rightarrow> u')"

definition ResolveReference :: "URL \<Rightarrow> URL \<Rightarrow> URL" where
  "ResolveReference u ref =
    (let url = (if Scheme ref = [] then ref\<lparr>Scheme := Scheme u\<rparr> else ref) in
     if Scheme ref \<noteq> [] \<or> Host ref \<noteq> [] \<or> User ref \<noteq> None
       then setPath_ignoring_error url (resolvePath (EscapedPath ref) [])
     else if Opaque ref \<noteq> [] then url\<lparr>User := None, Host := [], Path := []\<rparr>
     else
       (let url1 =
          (if Path ref = [] \<and> \<not> ForceQuery ref \<and> RawQuery ref = [] then
             (let url0 = url\<lparr>RawQuery := RawQuery u\<rparr> in
              if Fragment ref = []
              then url0\<lparr>Fragment := Fragment u, RawFragment := RawFragment u\<rparr>
              else url0)
           else url)
        in if Path ref = [] \<and> Opaque u \<noteq> []
           then url1\<lparr>Opaque := Opaque u, User := None, Host := [], Path := []\<rparr>
           else setPath_ignoring_error (url1\<lparr>Host := Host u, User := User u\<rparr>)
                  (resolvePath (EscapedPath u) (EscapedPath ref))))"

text \<open>
  \<^verbatim>\<open>url.ParseQuery\<close> as \<^verbatim>\<open>URL.Query\<close> uses it: errors are dropped with the pieces
  that cause them. The map it fills is an association list in the order the keys are
  first inserted; \<open>values_append\<close> is \<^verbatim>\<open>m[key] = append(m[key], value)\<close>.
\<close>

type_synonym Values = "(string \<times> string list) list"

fun values_append :: "Values \<Rightarrow> string \<Rightarrow> string \<Rightarrow> Values" where
  "values_append [] k v = [(k, [v])]"
| "values_append ((k', vs) # m) k v =
    (if k' = k then (k', vs @ [v]) # m else (k', vs) # values_append m k v)"

definition parseQuery_piece :: "Values \<Rightarrow> string \<Rightarrow> Values" where
  "parseQuery_piece m piece =
    (if Contains piece CHR '';'' then m
     else if piece = [] then m
     else
       (case Cut piece CHR ''='' of
          (key, val, _) \<Rightarrow>
            (case QueryUnescape key of
               Inl e \<Rightarrow> m
             | Inr key' \<Rightarrow>
                 (case QueryUnescape val of
                    Inl e \<Rightarrow> m
                  | Inr val' \<Rightarrow> values_append m key' val'))))"

definition ParseQuery :: "string \<Rightarrow> Values" where
  "ParseQuery query = foldl parseQuery_piece [] (Split query CHR ''&'')"

definition Query :: "URL \<Rightarrow> Values" where
  "Query u = ParseQuery (RawQuery u)"

text \<open>\<^verbatim>\<open>URL.EscapedFragment\<close>.\<close>

definition EscapedFragment :: "URL \<Rightarrow> string" where
  "EscapedFragment u =
    (if RawFragment u \<noteq> [] \<and> validEncoded (RawFragment u) encodeFragment
        \<and> unescape (RawFragment u) encodeFragment = Inr (Fragment u)
     then RawFragment u
     else escape (Fragment u) encodeFragment)"

text \<open>
  \<^verbatim>\<open>URL.String\<close>. The text of the user information (\<^verbatim>\<open>Userinfo.String\<close>) and the
  escaping of the host (\<^verbatim>\<open>escape(h, encodeHost)\<close>) are the parameters
  \<open>userinfo_String\<close> and \<open>escape_host\<close>.
\<close>

definition URL_String :: "(Userinfo \<Rightarrow> string) \<Rightarrow> (string \<Rightarrow> string) \<Rightarrow> URL \<Rightarrow> string" where
  "URL_String userinfo_String escape_host u =
    (let buf0 = (if Scheme u \<noteq> [] then Scheme u @ '':'' else []);
         buf1 =
           (if Opaque u \<noteq> [] then buf0 @ Opaque u
            else
              (let buf_a =
                 (if (Scheme u \<noteq> [] \<or> Host u \<noteq> [] \<or> User u \<noteq> None)
                      \<and> \<not> (OmitHost u \<and> Host u = [] \<and> User u = None)
                  then buf0
                    @ (if Host u \<noteq> [] \<or> Path u \<noteq> [] \<or> User u \<noteq> None then ''//'' else [])
                    @ (case User u of None \<Rightarrow> [] | Some ui \<Rightarrow> userinfo_String ui @ ''@'')
                    @ (if Host u \<noteq> [] then escape_host (Host u) else [])
                  else buf0);
                   path = EscapedPath u;
                   buf_b = (if path \<noteq> [] \<and> hd path \<noteq> CHR ''/'' \<and> Host u \<noteq> [] then buf_a @ ''/'' else buf_a);
                   buf_c = (if buf_b = [] \<and> Contains (fst (Cut path CHR ''/'')) CHR '':'' then buf_b @ ''./'' else buf_b)
               in buf_c @ path));
         buf2 = (if ForceQuery u \<or> RawQuery u \<noteq> [] then buf1 @ ''?'' @ RawQuery u else buf1)
     in if Fragment u \<noteq> [] then buf2 @ ''#'' @ EscapedFragment u else buf2)"

section \<open>JWTAuthTransport: the canonical request and its hash\<close>

text \<open>
  The body of the loop \<^verbatim>\<open>for k, v := range jiraURL.Query()\<close> of
  \<^verbatim>\<open>canonicalizeRequest\<close>: the key \<open>jwt\<close> is skipped, every other entry appends its
  encoded pair to \<^verbatim>\<open>canonicalQueryString\<close>.
\<close>

fun canonicalQueryString_loop :: "Values \<Rightarrow> string list \<Rightarrow> string list" where
  "canonicalQueryString_loop [] canonicalQueryString = canonicalQueryString"
| "canonicalQueryString_loop ((k, v) # entries) canonicalQueryString =
    (if k = ''jwt'' then canonicalQueryString_loop entries canonicalQueryString
     else
       (let param = QueryEscape k;
            val = QueryEscape (Join v [])
        in canonicalQueryString_loop entries
             (canonicalQueryString @ [Replace (Join [param, val] ''='') CHR ''+'' ''%20''])))"

text \<open>
  Go visits the entries of a map in an order that changes from one \<^verbatim>\<open>range\<close> to the
  next. \<open>canonicalizeRequest_visiting\<close> is \<^verbatim>\<open>canonicalizeRequest\<close> with the order of that
  visit given as the list \<open>entries\<close>; \<^verbatim>\<open>sort.Strings\<close> is \<^const>\<open>sort\<close> on the byte-wise
  lexicographic order of strings.
\<close>

definition canonicalizeRequest_visiting ::
  "(string \<Rightarrow> string) \<Rightarrow> string \<Rightarrow> URL \<Rightarrow> Values \<Rightarrow> string" where
  "canonicalizeRequest_visiting unicode_upper httpMethod jiraURL entries =
    (let path = ''/'' @ Replace (Trim (Path jiraURL) CHR ''/'') CHR ''&'' ''%26'';
         canonicalQueryString = sort (canonicalQueryString_loop entries [])
     in ToUpper unicode_upper httpMethod @ ''&'' @ path @ ''&'' @ Join canonicalQueryString ''&'')"

text \<open>\<^verbatim>\<open>canonicalizeRequest\<close>, visiting the entries in the order the keys were inserted.\<close>

definition canonicalizeRequest :: "(string \<Rightarrow> string) \<Rightarrow> string \<Rightarrow> URL \<Rightarrow> string" where
  "canonicalizeRequest unicode_upper httpMethod jiraURL =
    canonicalizeRequest_visiting unicode_upper httpMethod jiraURL (Query jiraURL)"

text \<open>\<^verbatim>\<open>hex.EncodeToString\<close>: two lower-case hexadecimal digits per byte.\<close>

definition hex_EncodeToString :: "string \<Rightarrow> string" where
  "hex_EncodeToString bs =
    concat (map (\<lambda>c. [''0123456789abcdef'' ! (byte c div 16), ''0123456789abcdef'' ! (byte c mod 16)]) bs)"

text \<open>\<^verbatim>\<open>createQueryStringHash\<close>; \<open>sha256\<close> is \<^verbatim>\<open>sha256.Sum256\<close>, a parameter.\<close>

definition createQueryStringHash ::
  "(string \<Rightarrow> string) \<Rightarrow> (string \<Rightarrow> string) \<Rightarrow> string \<Rightarrow> URL \<Rightarrow> string" where
  "createQueryStringHash sha256 unicode_upper httpMethod jiraURL =
    hex_EncodeToString (sha256 (canonicalizeRequest unicode_upper httpMethod jiraURL))"

text \<open>
  Two parts of \<^verbatim>\<open>canonicalizeRequest\<close> by name: the string the loop appends for one
  entry of the query map, and the value of the variable \<^verbatim>\<open>path\<close>.
\<close>

definition encoded_pair :: "string \<times> string list \<Rightarrow> string" where
  "encoded_pair kv =
    Replace (QueryEscape (fst kv) @ ''='' @ QueryEscape (concat (snd kv))) CHR ''+'' ''%20''"

definition canonical_path :: "URL \<Rightarrow> string" where
  "canonical_path u = ''/'' @ Replace (Trim (Path u) CHR ''/'') CHR ''&'' ''%26''"

subsection \<open>The canonical string as the specification words it\<close>

text \<open>
  The definitions of this subsection follow the words of the specification. Apart from
  the query map of the URL and the sorting of strings, they use none of the functions
  \<^verbatim>\<open>canonicalizeRequest\<close> is made of.

  The upper-cased method: each of the letters \<open>a\<close> to \<open>z\<close> becomes its capital. For a
  method with a byte outside ASCII the capitals are those of Unicode, the parameter
  \<open>unicode_upper\<close>.
\<close>

definition spec_upper_letter :: "char \<Rightarrow> char" where
  "spec_upper_letter c =
    (case map_of (zip ''abcdefghijklmnopqrstuvwxyz'' ''ABCDEFGHIJKLMNOPQRSTUVWXYZ'') c of
       None \<Rightarrow> c
     | Some C \<Rightarrow> C)"

definition spec_upper :: "(string \<Rightarrow> string) \<Rightarrow> string \<Rightarrow> string" where
  "spec_upper unicode_upper m =
    (if list_all (\<lambda>c. c < CHR 0x80) m then map spec_upper_letter m else unicode_upper m)"

text \<open>The path trimmed of leading and trailing slashes, prefixed with one slash, with
  every \<open>&\<close> written \<open>%26\<close>.\<close>

fun spec_trim_leading :: "string \<Rightarrow> string" where
  "spec_trim_leading [] = []"
| "spec_trim_leading (c # cs) = (if c = CHR ''/'' then spec_trim_leading cs else c # cs)"

definition spec_trim_slashes :: "string \<Rightarrow> string" where
  "spec_trim_slashes s = spec_trim_leading (rev (spec_trim_leading (rev s)))"

fun spec_encode_ampersand :: "string \<Rightarrow> string" where
  "spec_encode_ampersand [] = []"
| "spec_encode_ampersand (c # cs) =
    (if c = CHR ''&'' then ''%26'' @ spec_encode_ampersand cs else c # spec_encode_ampersand cs)"

definition spec_canonical_path :: "URL \<Rightarrow> string" where
  "spec_canonical_path u = CHR ''/'' # spec_encode_ampersand (spec_trim_slashes (Path u))"

text \<open>
  Percent-encoding: a letter, a digit and each of \<open>-\<close>, \<open>_\<close>, \<open>.\<close>, \<open>~\<close> stands for
  itself; every other byte is written \<open>%\<close> and its two hexadecimal digits, in capitals.
\<close>

definition spec_unreserved :: "char \<Rightarrow> bool" where
  "spec_unreserved c =
    (c \<in> set ''ABCDEFGHIJKLMNOPQRSTUVWXYZabcdefghijklmnopqrstuvwxyz0123456789-_.~'')"

definition spec_hex_digit :: "nat \<Rightarrow> char" where
  "spec_hex_digit n = ''0123456789ABCDEF'' ! n"

definition spec_percent_byte :: "char \<Rightarrow> string" where
  "spec_percent_byte c =
    (if spec_unreserved c then [c]
     else [CHR ''%'', spec_hex_digit (of_char c div 16), spec_hex_digit (of_char c mod 16)])"

definition spec_percent_encode :: "string \<Rightarrow> string" where
  "spec_percent_encode s = concat (map spec_percent_byte s)"

text \<open>A pair: the percent-encoded key, \<open>=\<close>, and the percent-encoded concatenation of the
  values, with every \<open>+\<close> of the pair replaced by \<open>%20\<close>.\<close>

fun spec_plus_to_percent20 :: "string \<Rightarrow> string" where
  "spec_plus_to_percent20 [] = []"
| "spec_plus_to_percent20 (c # cs) =
    (if c = CHR ''+'' then ''%20'' @ spec_plus_to_percent20 cs else c # spec_plus_to_percent20 cs)"

definition spec_pair :: "string \<times> string list \<Rightarrow> string" where
  "spec_pair kv =
    spec_plus_to_percent20
      (spec_percent_encode (fst kv) @ ''='' @ spec_percent_encode (concat (snd kv)))"

text \<open>Joining: the parts with the separator between each two of them.\<close>

fun spec_join :: "string list \<Rightarrow> string \<Rightarrow> string" where
  "spec_join [] sep = []"
| "spec_join (x # xs) sep = x @ concat (map (\<lambda>y. sep @ y) xs)"

text \<open>
  The canonical string: the upper-cased method, the path, and the sorted pairs of every
  query parameter but \<open>jwt\<close> joined with \<open>&\<close>, the three parts joined with \<open>&\<close>. The
  query parameters of a URL are the entries of its query map.
\<close>

definition spec_canonical :: "(string \<Rightarrow> string) \<Rightarrow> string \<Rightarrow> URL \<Rightarrow> string" where
  "spec_canonical unicode_upper httpMethod u =
    spec_join
      [spec_upper unicode_upper httpMethod,
       spec_canonical_path u,
       spec_join (sort (map spec_pair (filter (\<lambda>kv. fst kv \<noteq> ''jwt'') (Query u)))) ''&'']
      ''&''"

subsection \<open>The parameters of a raw query\<close>

text \<open>The decoded \<open>(key, value)\<close> pair of one piece of a raw query, when the piece yields
  one: what \<^const>\<open>parseQuery_piece\<close> appends.\<close>

definition decode_piece :: "string \<Rightarrow> (string \<times> string) option" where
  "decode_piece piece =
    (if Contains piece CHR '';'' \<or> piece = [] then None
     else (case (QueryUnescape (fst (Cut piece CHR ''='')),
                 QueryUnescape (fst (snd (Cut piece CHR ''='')))) of
             (Inr k, Inr v) \<Rightarrow> Some (k, v)
           | _ \<Rightarrow> None))"

text \<open>The values a raw query gives the parameter \<open>k\<close>, in the order they appear.\<close>

definition values_in_order :: "string \<Rightarrow> string \<Rightarrow> string list" where
  "values_in_order query k =
    map snd (filter (\<lambda>kv. fst kv = k) (List.map_filter decode_piece (Split query CHR ''&'')))"

definition demo_URL :: "string \<Rightarrow> string \<Rightarrow> URL" where
  "demo_URL path query = empty_URL\<lparr>Path := path, RawQuery := query\<rparr>"

text \<open>One step of \<^const>\<open>ParseQuery\<close> on a decoded pair.\<close>

definition add_pair :: "Values \<Rightarrow> string \<times> string \<Rightarrow> Values" where
  "add_pair m kv = values_append m (fst kv) (snd kv)"


section \<open>Requests, header maps and slices in a store\<close>

text \<open>
  A Go map and the backing array of a slice are shared objects: copying a request
  struct copies the reference to its header map, and copying a slice copies the
  reference to its array. The store keeps both by address. Addresses below the
  counters are allocated; an allocation takes the counter as the new address.

  A slice is nil, or an array address with an offset, a length and a capacity.
  A header map is the list of its entries (Go fixes no order on them).
  \<open>growth\<close> is the capacity the runtime gives a new array for a number of elements
  (never less than that number, see \<open>new_cap\<close>).
\<close>

type_synonym addr = nat

datatype slice = NilSlice | Slice addr nat nat nat

record heap =
  hmaps :: "addr \<Rightarrow> (string \<times> slice) list"
  map_count :: nat
  arrays :: "addr \<Rightarrow> string list"
  array_count :: nat
  urls :: "addr \<Rightarrow> URL"
  url_count :: nat
  growth :: "nat \<Rightarrow> nat"

definition empty_heap :: heap where
  "empty_heap = \<lparr>hmaps = (\<lambda>_. []), map_count = 0, arrays = (\<lambda>_. []), array_count = 0,
     urls = (\<lambda>_. empty_URL), url_count = 0, growth = (\<lambda>n. n)\<rparr>"

text \<open>\<^verbatim>\<open>http.Request\<close>: the fields the client reads or writes. \<open>URL\<close> and \<open>Header\<close> are
  references into the store (nil is \<open>None\<close>); \<open>Ctx\<close> is the request's context.\<close>

record request =
  Method :: string
  URL :: "addr option"
  Header :: "addr option"
  ReqBody :: "string option"
  ReqHost :: string
  Ctx :: "nat option"

record Cookie =
  Name :: string
  Value :: string

definition new_cap :: "heap \<Rightarrow> nat \<Rightarrow> nat" where
  "new_cap h n = max n (growth h n)"

text \<open>The elements a slice shows.\<close>

fun slice_elems :: "heap \<Rightarrow> slice \<Rightarrow> string list" where
  "slice_elems h NilSlice = []"
| "slice_elems h (Slice b off n c) = take n (drop off (arrays h b))"

text \<open>A new array holding \<open>xs\<close>, with the capacity \<open>c\<close> (at least the length of \<open>xs\<close>);
  the spare elements are empty strings.\<close>

definition alloc_array :: "heap \<Rightarrow> string list \<Rightarrow> nat \<Rightarrow> slice \<times> heap" where
  "alloc_array h xs c =
    (Slice (array_count h) 0 (length xs) (max c (length xs)),
     h\<lparr>arrays := (arrays h)(array_count h := xs @ replicate (c - length xs) []),
       array_count := Suc (array_count h)\<rparr>)"

text \<open>\<^verbatim>\<open>append([]string(nil), s...)\<close>: nil when \<open>s\<close> is empty, a new array otherwise.\<close>

definition append_to_nil :: "heap \<Rightarrow> slice \<Rightarrow> slice \<times> heap" where
  "append_to_nil h s =
    (if slice_elems h s = [] then (NilSlice, h)
     else alloc_array h (slice_elems h s) (new_cap h (length (slice_elems h s))))"

text \<open>\<^verbatim>\<open>append(s, v)\<close>: in place when the capacity allows, into a new array otherwise.\<close>

fun append_elem :: "heap \<Rightarrow> slice \<Rightarrow> string \<Rightarrow> slice \<times> heap" where
  "append_elem h NilSlice v = alloc_array h [v] (new_cap h 1)"
| "append_elem h (Slice b off n c) v =
    (if n < c
     then (Slice b off (Suc n) c, h\<lparr>arrays := (arrays h)(b := (arrays h b)[off + n := v])\<rparr>)
     else alloc_array h (slice_elems h (Slice b off n c) @ [v]) (new_cap h (Suc n)))"

text \<open>\<^verbatim>\<open>make(http.Header)\<close>.\<close>

definition make_map :: "heap \<Rightarrow> addr \<times> heap" where
  "make_map h = (map_count h, h\<lparr>hmaps := (hmaps h)(map_count h := []), map_count := Suc (map_count h)\<rparr>)"

text \<open>\<^verbatim>\<open>m[k] = s\<close> and \<^verbatim>\<open>delete(m, k)\<close> on the entries of a map.\<close>

fun entries_assign :: "(string \<times> slice) list \<Rightarrow> string \<Rightarrow> slice \<Rightarrow> (string \<times> slice) list" where
  "entries_assign [] k s = [(k, s)]"
| "entries_assign ((k', s') # es) k s =
    (if k' = k then (k, s) # es else (k', s') # entries_assign es k s)"

definition entries_delete :: "(string \<times> slice) list \<Rightarrow> string \<Rightarrow> (string \<times> slice) list" where
  "entries_delete es k = filter (\<lambda>e. fst e \<noteq> k) es"

definition map_assign :: "heap \<Rightarrow> addr \<Rightarrow> string \<Rightarrow> slice \<Rightarrow> heap" where
  "map_assign h a k s = h\<lparr>hmaps := (hmaps h)(a := entries_assign (hmaps h a) k s)\<rparr>"

definition map_delete :: "heap \<Rightarrow> addr \<Rightarrow> string \<Rightarrow> heap" where
  "map_delete h a k = h\<lparr>hmaps := (hmaps h)(a := entries_delete (hmaps h a) k)\<rparr>"

text \<open>\<^verbatim>\<open>m[k]\<close>: the nil slice for a missing key and for a nil map.\<close>

definition map_index :: "heap \<Rightarrow> addr option \<Rightarrow> string \<Rightarrow> slice" where
  "map_index h hdr k =
    (case hdr of
       None \<Rightarrow> NilSlice
     | Some a \<Rightarrow> (case map_of (hmaps h a) k of None \<Rightarrow> NilSlice | Some s \<Rightarrow> s))"

text \<open>What a header holds for a key: \<open>None\<close> when the key is absent, its values otherwise.\<close>

definition header_values :: "heap \<Rightarrow> addr option \<Rightarrow> string \<Rightarrow> string list option" where
  "header_values h hdr k =
    (case hdr of
       None \<Rightarrow> None
     | Some a \<Rightarrow> map_option (slice_elems h) (map_of (hmaps h a) k))"

text \<open>
  \<^verbatim>\<open>Header.Get\<close>, \<^verbatim>\<open>Header.Set\<close>, \<^verbatim>\<open>Header.Add\<close> and \<^verbatim>\<open>Header.Del\<close>. The keys the
  client passes (\<open>Content-Type\<close>, \<open>Authorization\<close>, \<open>Cookie\<close>) are in canonical form
  already, so the canonicalisation of the key is left out. Writing to a nil map panics.
\<close>

definition Header_Get :: "heap \<Rightarrow> addr option \<Rightarrow> string \<Rightarrow> string" where
  "Header_Get h hdr k = (case slice_elems h (map_index h hdr k) of [] \<Rightarrow> [] | v # _ \<Rightarrow> v)"

definition Header_Set :: "heap \<Rightarrow> addr option \<Rightarrow> string \<Rightarrow> string \<Rightarrow> go_panic + heap" where
  "Header_Set h hdr k v =
    (case hdr of
       None \<Rightarrow> Inl NilMapAssignment
     | Some a \<Rightarrow> (case alloc_array h [v] 1 of (s, h1) \<Rightarrow> Inr (map_assign h1 a k s)))"

definition Header_Add :: "heap \<Rightarrow> addr option \<Rightarrow> string \<Rightarrow> string \<Rightarrow> go_panic + heap" where
  "Header_Add h hdr k v =
    (case hdr of
       None \<Rightarrow> Inl NilMapAssignment
     | Some a \<Rightarrow> (case append_elem h (map_index h hdr k) v of (s, h1) \<Rightarrow> Inr (map_assign h1 a k s)))"

definition Header_Del :: "heap \<Rightarrow> addr option \<Rightarrow> string \<Rightarrow> go_panic + heap" where
  "Header_Del h hdr k =
    (case hdr of
       None \<Rightarrow> Inr h
     | Some a \<Rightarrow> Inr (map_delete h a k))"

text \<open>\<^verbatim>\<open>h[k][i] = v\<close>: a write through the slice into its array.\<close>

definition Header_Write :: "heap \<Rightarrow> addr option \<Rightarrow> string \<Rightarrow> nat \<Rightarrow> string \<Rightarrow> go_panic + heap" where
  "Header_Write h hdr k i v =
    (case map_index h hdr k of
       NilSlice \<Rightarrow> Inl IndexOutOfRange
     | Slice b off n c \<Rightarrow>
         if i < n then Inr (h\<lparr>arrays := (arrays h)(b := (arrays h b)[off + i := v])\<rparr>)
         else Inl IndexOutOfRange)"

text \<open>The ways a holder of a request changes its headers.\<close>

datatype header_op =
    HSet string string
  | HAdd string string
  | HDel string
  | HWrite string nat string

fun apply_header_op :: "heap \<Rightarrow> addr option \<Rightarrow> header_op \<Rightarrow> go_panic + heap" where
  "apply_header_op h hdr (HSet k v) = Header_Set h hdr k v"
| "apply_header_op h hdr (HAdd k v) = Header_Add h hdr k v"
| "apply_header_op h hdr (HDel k) = Header_Del h hdr k"
| "apply_header_op h hdr (HWrite k i v) = Header_Write h hdr k i v"

fun apply_header_ops :: "heap \<Rightarrow> addr option \<Rightarrow> header_op list \<Rightarrow> go_panic + heap" where
  "apply_header_ops h hdr [] = Inr h"
| "apply_header_ops h hdr (x # xs) =
    (case apply_header_op h hdr x of
       Inl p \<Rightarrow> Inl p
     | Inr h' \<Rightarrow> apply_header_ops h' hdr xs)"

text \<open>
  Every reference of a Go program points to allocated memory, and a map has one entry
  per key. On the store this is: the slice's array is allocated and holds the slice's
  window, and the header's map is allocated, has distinct keys and holds such slices
  only.
\<close>

fun slice_ok :: "heap \<Rightarrow> slice \<Rightarrow> bool" where
  "slice_ok h NilSlice = True"
| "slice_ok h (Slice b off n c) = (b < array_count h \<and> n \<le> c \<and> off + c \<le> length (arrays h b))"

definition header_ok :: "heap \<Rightarrow> addr option \<Rightarrow> bool" where
  "header_ok h hdr =
    (case hdr of
       None \<Rightarrow> True
     | Some a \<Rightarrow>
         a < map_count h \<and> distinct (map fst (hmaps h a))
         \<and> list_all (\<lambda>e. slice_ok h (snd e)) (hmaps h a))"

text \<open>The arrays the values of a header live in.\<close>

fun slice_array :: "slice \<Rightarrow> addr option" where
  "slice_array NilSlice = None"
| "slice_array (Slice b off n c) = Some b"

definition header_arrays :: "heap \<Rightarrow> addr option \<Rightarrow> addr list" where
  "header_arrays h hdr =
    (case hdr of
       None \<Rightarrow> []
     | Some a \<Rightarrow> List.map_filter (\<lambda>e. slice_array (snd e)) (hmaps h a))"

text \<open>Two headers are separate when they are different maps and share no array.\<close>

definition separate :: "heap \<Rightarrow> addr option \<Rightarrow> addr option \<Rightarrow> bool" where
  "separate h x y =
    (header_ok h x \<and> header_ok h y \<and> (x = None \<or> x \<noteq> y)
     \<and> list_all (\<lambda>b. b \<notin> set (header_arrays h y)) (header_arrays h x))"

section \<open>cloneRequest\<close>

text \<open>The loop \<^verbatim>\<open>for k, s := range r.Header { r2.Header[k] = append([]string(nil), s...) }\<close>
  over the entries of the source map, writing into the map at \<open>a2\<close>.\<close>

fun copy_entries :: "heap \<Rightarrow> addr \<Rightarrow> (string \<times> slice) list \<Rightarrow> heap" where
  "copy_entries h a2 [] = h"
| "copy_entries h a2 ((k, s) # es) =
    (case append_to_nil h s of (s', h1) \<Rightarrow> copy_entries (map_assign h1 a2 k s') a2 es)"

text \<open>
  \<^verbatim>\<open>cloneRequest\<close>. The argument is a pointer: nil (\<open>None\<close>) panics at \<^verbatim>\<open>*r2 = *r\<close>.
  The struct copy keeps every field, the references \<open>URL\<close> and \<open>Header\<close> included; then
  \<open>Header\<close> is replaced by a new map filled by the loop.
\<close>

definition cloneRequest :: "heap \<Rightarrow> request option \<Rightarrow> go_panic + (request \<times> heap)" where
  "cloneRequest h r =
    (case r of
       None \<Rightarrow> Inl NilDereference
     | Some r \<Rightarrow>
         (let r2 = r;
              (a2, h1) = make_map h;
              r2 = r2\<lparr>Header := Some a2\<rparr>;
              entries = (case Header r of None \<Rightarrow> [] | Some a \<Rightarrow> hmaps h a)
          in Inr (r2, copy_entries h1 a2 entries)))"

text \<open>
  A change of the store through the header \<open>x\<close> only: no allocation is undone, every
  other map is as before, every allocated array that is not one of \<open>x\<close>'s is as before,
  allocated arrays keep their length, and \<open>x\<close> ends with its old arrays or new ones.
\<close>

definition frame :: "heap \<Rightarrow> heap \<Rightarrow> addr option \<Rightarrow> bool" where
  "frame h h' x =
    (map_count h' = map_count h \<and> array_count h \<le> array_count h'
     \<and> (\<forall>a. Some a \<noteq> x \<longrightarrow> hmaps h' a = hmaps h a)
     \<and> (\<forall>b. b < array_count h \<longrightarrow> b \<notin> set (header_arrays h x) \<longrightarrow> arrays h' b = arrays h b)
     \<and> (\<forall>b. b < array_count h \<longrightarrow> length (arrays h' b) = length (arrays h b))
     \<and> header_ok h' x
     \<and> (\<forall>b \<in> set (header_arrays h' x). b \<in> set (header_arrays h x) \<or> array_count h \<le> b))"

text \<open>A store with one request, used to run the model.\<close>

definition demo_heap :: heap where
  "demo_heap = empty_heap\<lparr>
      hmaps := (\<lambda>_. [])(0 := [(''Accept'', Slice 0 0 1 2), (''X-Empty'', NilSlice)]),
      map_count := 1,
      arrays := (\<lambda>_. [])(0 := [''text/plain'', []]),
      array_count := 1\<rparr>"

definition demo_request :: request where
  "demo_request = \<lparr>Method = ''GET'', URL = None, Header = Some 0, ReqBody = None,
      ReqHost = ''jira.example'', Ctx = Some 0\<rparr>"


section \<open>Building requests: NewClient and NewRawRequest\<close>

text \<open>
  The library functions the request builders call without the client depending on what
  they compute: the authority parser and the printers of net/url, the cookie sanitizers
  of net/http, and the text of the Basic credentials
  (\<open>Basic\<close>, a space and the base64 form of \<open>username:password\<close>).
\<close>

record net_lib =
  parseAuthority :: "string \<Rightarrow> url_error + (Userinfo option \<times> string)"
  userinfo_String :: "Userinfo \<Rightarrow> string"
  escape_host :: "string \<Rightarrow> string"
  sanitizeCookieName :: "string \<Rightarrow> string"
  sanitizeCookieValue :: "string \<Rightarrow> string"
  basic_credentials :: "string \<Rightarrow> string \<Rightarrow> string"

text \<open>A library for running the model on hosts and cookies of plain letters and
  digits, on which the functions above change nothing.\<close>

definition demo_lib :: net_lib where
  "demo_lib = \<lparr>parseAuthority = (\<lambda>a. Inr (None, a)),
     userinfo_String = (\<lambda>ui. ui_username ui),
     escape_host = (\<lambda>h. h),
     sanitizeCookieName = (\<lambda>n. n),
     sanitizeCookieValue = (\<lambda>v. v),
     basic_credentials = (\<lambda>u p. ''Basic '' @ u @ '':'' @ p)\<rparr>"

text \<open>The errors of \<^verbatim>\<open>http.NewRequestWithContext\<close>, and those of \<^verbatim>\<open>NewRawRequest\<close>,
  which returns the former as they are.\<close>

datatype http_request_error =
    InvalidMethod string                \<comment> \<open>"net/http: invalid method %q"\<close>
  | NilContext                          \<comment> \<open>"net/http: nil Context"\<close>
  | URLError url_error                  \<comment> \<open>the error of \<^verbatim>\<open>url.Parse\<close>\<close>

datatype 'e request_error =
    FailedToParseURL url_error          \<comment> \<open>"failed to parse URL: %w"\<close>
  | RequestCreationError http_request_error
  | OptionError 'e                      \<comment> \<open>the error of a request option\<close>

text \<open>\<^verbatim>\<open>validMethod\<close>: a non-empty string of HTTP token characters.\<close>

definition isTokenByte :: "char \<Rightarrow> bool" where
  "isTokenByte c = (is_alnum c \<or> c \<in> set ''!#$%&*+-.^_`|~'' \<or> byte c = 39)"

definition validMethod :: "string \<Rightarrow> bool" where
  "validMethod m = (m \<noteq> [] \<and> list_all isTokenByte m)"

text \<open>\<^verbatim>\<open>removeEmptyPort\<close>: a host that ends in a colon loses it.\<close>

definition removeEmptyPort :: "string \<Rightarrow> string" where
  "removeEmptyPort host =
    (case LastIndexByte host CHR '':'' of
       None \<Rightarrow> host
     | Some i \<Rightarrow>
         (case LastIndexByte host CHR '']'' of
            None \<Rightarrow> if HasSuffix host '':'' then butlast host else host
          | Some j \<Rightarrow> if j < i \<and> HasSuffix host '':'' then butlast host else host))"

text \<open>
  \<^verbatim>\<open>http.NewRequestWithContext\<close>: the method defaults to \<open>GET\<close> and must be a token,
  the context must not be nil, the URL text is parsed into a new \<^verbatim>\<open>URL\<close>, and the
  request gets a new, empty header map.
\<close>

definition alloc_url :: "heap \<Rightarrow> URL \<Rightarrow> addr \<times> heap" where
  "alloc_url h u = (url_count h, h\<lparr>urls := (urls h)(url_count h := u), url_count := Suc (url_count h)\<rparr>)"

definition NewRequestWithContext ::
  "net_lib \<Rightarrow> heap \<Rightarrow> nat option \<Rightarrow> string \<Rightarrow> string \<Rightarrow> string option \<Rightarrow>
   http_request_error + (request \<times> heap)" where
  "NewRequestWithContext lib h ctx method url body =
    (let method = (if method = [] then ''GET'' else method) in
     if \<not> validMethod method then Inl (InvalidMethod method)
     else if ctx = None then Inl NilContext
     else
       (case Parse (parseAuthority lib) url of
          Inl e \<Rightarrow> Inl (URLError e)
        | Inr u \<Rightarrow>
            (let u = u\<lparr>Host := removeEmptyPort (Host u)\<rparr>;
                 (ua, h1) = alloc_url h u;
                 (ha, h2) = make_map h1
             in Inr (\<lparr>Method = method, URL = Some ua, Header = Some ha, ReqBody = body,
                       ReqHost = Host u, Ctx = ctx\<rparr>, h2))))"

text \<open>\<^verbatim>\<open>Request.AddCookie\<close>: the cookie is appended to the one \<open>Cookie\<close> header line.\<close>

definition AddCookie :: "net_lib \<Rightarrow> heap \<Rightarrow> request \<Rightarrow> Cookie \<Rightarrow> go_panic + heap" where
  "AddCookie lib h r c =
    (let s = sanitizeCookieName lib (Name c) @ ''='' @ sanitizeCookieValue lib (Value c);
         cur = Header_Get h (Header r) ''Cookie''
     in if cur \<noteq> [] then Header_Set h (Header r) ''Cookie'' (cur @ ''; '' @ s)
        else Header_Set h (Header r) ''Cookie'' s)"

text \<open>\<^verbatim>\<open>Request.SetBasicAuth\<close>.\<close>

definition SetBasicAuth :: "net_lib \<Rightarrow> heap \<Rightarrow> request \<Rightarrow> string \<Rightarrow> string \<Rightarrow> go_panic + heap" where
  "SetBasicAuth lib h r user pass =
    Header_Set h (Header r) ''Authorization'' (basic_credentials lib user pass)"

text \<open>
  The client. \<open>session\<close> is the pointer \<^verbatim>\<open>c.session\<close> (nil is \<open>None\<close>) with the cookies of
  the session it points to; the HTTP client and the services play no part in building a
  request and are left out. Modelled from the spec: the authentication service with its
  modes basic and session (\<^verbatim>\<open>authTypeBasic\<close>, \<^verbatim>\<open>authTypeSession\<close>), whose declaration
  is not among the sources; a new client has neither mode.
\<close>

datatype auth_type = authTypeNone | authTypeBasic | authTypeSession

record Client =
  baseURL :: URL
  session :: "Cookie list option"
  authType :: auth_type
  username :: string
  password :: string

definition NewClient :: "net_lib \<Rightarrow> string \<Rightarrow> url_error + Client" where
  "NewClient lib baseURLText =
    (let baseURLText = (if \<not> HasSuffix baseURLText ''/'' then baseURLText @ ''/'' else baseURLText) in
     case Parse (parseAuthority lib) baseURLText of
       Inl err \<Rightarrow> Inl err
     | Inr parsedBaseURL \<Rightarrow>
         Inr \<lparr>baseURL = parsedBaseURL, session = None, authType = authTypeNone,
              username = [], password = []\<rparr>)"

text \<open>The loop \<^verbatim>\<open>for _, cookie := range c.session.Cookies { req.AddCookie(cookie) }\<close>.\<close>

fun add_all_cookies :: "net_lib \<Rightarrow> heap \<Rightarrow> request \<Rightarrow> Cookie list \<Rightarrow> go_panic + heap" where
  "add_all_cookies lib h req [] = Inr h"
| "add_all_cookies lib h req (cookie # cookies) =
    (case AddCookie lib h req cookie of
       Inl p \<Rightarrow> Inl p
     | Inr h' \<Rightarrow> add_all_cookies lib h' req cookies)"

text \<open>
  A request option is a function on the request pointer: it may change the request
  and the store, and returns an error or nil. The loop over the options stops at the
  first error.
\<close>

type_synonym 'e request_option = "heap \<Rightarrow> request \<Rightarrow> heap \<times> request \<times> 'e option"

fun apply_options ::
  "'e request_option list \<Rightarrow> heap \<Rightarrow> request \<Rightarrow> heap \<times> request \<times> 'e option" where
  "apply_options [] h req = (h, req, None)"
| "apply_options (opt # options) h req =
    (case opt h req of
       (h', req', Some err) \<Rightarrow> (h', req', Some err)
     | (h', req', None) \<Rightarrow> apply_options options h' req')"

text \<open>The URL \<^verbatim>\<open>NewRawRequest\<close> resolves: the reference with the leading slashes of its
  \<open>Path\<close> trimmed, resolved against the base URL.\<close>

definition resolve_request_URL :: "net_lib \<Rightarrow> Client \<Rightarrow> string \<Rightarrow> url_error + URL" where
  "resolve_request_URL lib c urlStr =
    (case Parse (parseAuthority lib) urlStr of
       Inl err \<Rightarrow> Inl err
     | Inr rel \<Rightarrow>
         (let rel = rel\<lparr>Path := TrimLeft (Path rel) CHR ''/''\<rparr>
          in Inr (ResolveReference (baseURL c) rel)))"

text \<open>\<^verbatim>\<open>Client.NewRawRequest\<close>. The result is the pair the Go function returns (a request
  pointer, nil being \<open>None\<close>, and an error) with the store, or a panic.\<close>

definition NewRawRequest ::
  "net_lib \<Rightarrow> Client \<Rightarrow> heap \<Rightarrow> nat option \<Rightarrow> string \<Rightarrow> string \<Rightarrow> string option \<Rightarrow>
   'e request_option list \<Rightarrow> go_panic + (heap \<times> request option \<times> 'e request_error option)" where
  "NewRawRequest lib c h ctx method urlStr body options =
    (case resolve_request_URL lib c urlStr of
       Inl err \<Rightarrow> Inr (h, None, Some (FailedToParseURL err))
     | Inr u \<Rightarrow>
         (case NewRequestWithContext lib h ctx method
                 (URL_String (userinfo_String lib) (escape_host lib) u) body of
            Inl err \<Rightarrow> Inr (h, None, Some (RequestCreationError err))
          | Inr (req, h1) \<Rightarrow>
              (case Header_Set h1 (Header req) ''Content-Type'' ''application/json'' of
                 Inl p \<Rightarrow> Inl p
               | Inr h2 \<Rightarrow>
                   (case
                      (if authType c = authTypeSession then
                         (case session c of
                            None \<Rightarrow> Inr h2
                          | Some cookies \<Rightarrow> add_all_cookies lib h2 req cookies)
                       else if authType c = authTypeBasic then
                         (if username c \<noteq> [] then SetBasicAuth lib h2 req (username c) (password c)
                          else Inr h2)
                       else Inr h2) of
                      Inl p \<Rightarrow> Inl p
                    | Inr h3 \<Rightarrow>
                        (case apply_options options h3 req of
                           (h4, req', Some err) \<Rightarrow> Inr (h4, Some req', Some (OptionError err))
                         | (h4, req', None) \<Rightarrow> Inr (h4, Some req', None))))))"

text \<open>The text of the URL of a request, and the \<open>Cookie\<close> line it carries.\<close>

definition request_URL_text :: "net_lib \<Rightarrow> heap \<Rightarrow> request \<Rightarrow> string" where
  "request_URL_text lib h req =
    (case URL req of
       None \<Rightarrow> []
     | Some ua \<Rightarrow> URL_String (userinfo_String lib) (escape_host lib) (urls h ua))"

section \<open>The authenticating transports\<close>

text \<open>
  A \<^verbatim>\<open>RoundTrip\<close> of the client's transports ends in one of two ways: it returns an
  error of its own, or it hands a request to the underlying transport
  (\<^verbatim>\<open>t.transport().RoundTrip(req2)\<close>) and returns what that returns. The underlying
  transport is the parameter \<open>transport\<close>, a function of the store and the request.
\<close>

datatype ('e, 'r) round_trip =
    RTError 'e
  | RTDelegated request heap 'r

text \<open>The requests a round trip handed to the underlying transport.\<close>

fun transport_calls :: "('e, 'r) round_trip \<Rightarrow> (request \<times> heap) list" where
  "transport_calls (RTError e) = []"
| "transport_calls (RTDelegated req h r) = [(req, h)]"

subsection \<open>JWTAuthTransport\<close>

text \<open>
  A \<^verbatim>\<open>time.Time\<close> is the number of nanoseconds since the Unix epoch;
  \<^verbatim>\<open>Time.Unix\<close> is the number of whole seconds, \<^verbatim>\<open>Time.Add\<close> adds a duration in
  nanoseconds.
\<close>

type_synonym time = int

definition Second :: int where
  "Second = 1000000000"

definition Unix :: "time \<Rightarrow> int" where
  "Unix t = t div 1000000000"

definition Time_Add :: "time \<Rightarrow> int \<Rightarrow> time" where
  "Time_Add t d = t + d"

record JWTAuthTransport =
  Secret :: string
  Issuer :: string

text \<open>The claims of the token, the four entries of the \<^verbatim>\<open>jwt.MapClaims\<close> literal.\<close>

record jwt_claims =
  iss :: string
  iat :: int
  exp :: int
  qsh :: string

datatype 'e jwt_error = JWTSigningError 'e   \<comment> \<open>"jwtAuth: error signing JWT: %w"\<close>

text \<open>
  The claims \<^verbatim>\<open>RoundTrip\<close> builds. The map literal calls \<^verbatim>\<open>time.Now()\<close> twice, first
  for \<open>iat\<close> and then for \<open>exp\<close>: \<open>now1\<close> and \<open>now2\<close> are the two readings of the clock.
\<close>

definition token_claims :: "JWTAuthTransport \<Rightarrow> time \<Rightarrow> time \<Rightarrow> string \<Rightarrow> jwt_claims" where
  "token_claims t now1 now2 hash =
    (let expiry = 59 * Second in
     \<lparr>iss = Issuer t, iat = Unix now1, exp = Unix (Time_Add now2 expiry), qsh = hash\<rparr>)"

text \<open>
  \<^verbatim>\<open>JWTAuthTransport.RoundTrip\<close>. \<open>SignedString\<close> is \<^verbatim>\<open>Token.SignedString\<close> of the JWT
  library, given the signing method, the claims and the key; \<open>sha256\<close> and
  \<open>unicode_upper\<close> are as in \<^const>\<open>createQueryStringHash\<close>. A nil request panics in
  \<^verbatim>\<open>cloneRequest\<close>, a nil \<open>URL\<close> in \<^verbatim>\<open>canonicalizeRequest\<close>.
\<close>

definition JWT_RoundTrip ::
  "(heap \<Rightarrow> request \<Rightarrow> 'r) \<Rightarrow> (string \<Rightarrow> jwt_claims \<Rightarrow> string \<Rightarrow> 'e + string) \<Rightarrow>
   (string \<Rightarrow> string) \<Rightarrow> (string \<Rightarrow> string) \<Rightarrow> time \<Rightarrow> time \<Rightarrow>
   JWTAuthTransport \<Rightarrow> heap \<Rightarrow> request option \<Rightarrow>
   go_panic + ('e jwt_error, 'r) round_trip" where
  "JWT_RoundTrip transport SignedString sha256 unicode_upper now1 now2 t h req =
    (case cloneRequest h req of
       Inl p \<Rightarrow> Inl p
     | Inr (req2, h1) \<Rightarrow>
         (case (req, URL req2) of
            (Some r, Some ua) \<Rightarrow>
              (let hash = createQueryStringHash sha256 unicode_upper (Method r) (urls h1 ua);
                   claims = token_claims t now1 now2 hash
               in case SignedString ''HS256'' claims (Secret t) of
                    Inl err \<Rightarrow> Inr (RTError (JWTSigningError err))
                  | Inr jwtStr \<Rightarrow>
                      (case Header_Set h1 (Header req2) ''Authorization'' (''JWT '' @ jwtStr) of
                         Inl p \<Rightarrow> Inl p
                       | Inr h2 \<Rightarrow> Inr (RTDelegated req2 h2 (transport h2 req2))))
          | _ \<Rightarrow> Inl NilDereference))"

text \<open>
  Two signers for running the model. The first signs with every key, the empty one
  included, as the HS256 signer of the library does with a key of bytes; its token says
  whether the claims it is given have \<open>exp = iat + 59\<close>. The second returns an error
  on every input: the library's \<^verbatim>\<open>SignedString\<close> does so for a key that is no byte
  slice or a hash function that is not linked in, which \<^verbatim>\<open>RoundTrip\<close> rules out by
  passing \<^verbatim>\<open>t.Secret\<close> and HS256; this signer runs the error branch of
  \<^verbatim>\<open>RoundTrip\<close>, which the library in use does not reach.
\<close>

definition demo_SignedString :: "string \<Rightarrow> jwt_claims \<Rightarrow> string \<Rightarrow> string + string" where
  "demo_SignedString signing_method claims key =
    (if exp claims = iat claims + 59 then Inr ''token-exp-is-iat-plus-59''
     else Inr ''token-exp-is-not-iat-plus-59'')"

definition failing_SignedString :: "string \<Rightarrow> jwt_claims \<Rightarrow> string \<Rightarrow> string + string" where
  "failing_SignedString signing_method claims key = Inl ''hash function unavailable''"

definition demo_jwt_transport :: JWTAuthTransport where
  "demo_jwt_transport = \<lparr>Secret = ''secret'', Issuer = ''issuer''\<rparr>"

text \<open>The demo store with a URL for the demo request.\<close>

definition demo_heap_url :: heap where
  "demo_heap_url = demo_heap\<lparr>urls := (\<lambda>_. empty_URL)(0 := demo_URL ''/a/b/'' ''z=1&a=2''), url_count := 1\<rparr>"

definition demo_request_url :: request where
  "demo_request_url = demo_request\<lparr>URL := Some 0\<rparr>"

subsection \<open>CookieAuthTransport\<close>

record CookieAuthTransport =
  Username :: string
  Password :: string
  AuthURL :: string
  SessionObject :: "Cookie list option"

text \<open>The response of the login call, as far as the transport can see it: its status
  and the cookies of its \<open>Set-Cookie\<close> headers, which is what \<^verbatim>\<open>resp.Cookies()\<close> returns
  (never nil, possibly empty).\<close>

record auth_response =
  AuthStatusCode :: int
  AuthCookies :: "Cookie list"

datatype 'j auth_request_error =
    FailedToEncodeBody 'j                        \<comment> \<open>"failed to encode body as json: %w"\<close>
  | FailedToCreateRequest http_request_error     \<comment> \<open>the request creation failure\<close>

datatype ('e, 'j) session_error =
    FailedToCreateAuthRequest "'j auth_request_error"   \<comment> \<open>"failed to create auth request: %w"\<close>
  | FailedToAuthenticate 'e                             \<comment> \<open>"failed to authenticate: %w"\<close>

datatype ('e, 'j) cookie_error =
    NoSessionObject "('e, 'j) session_error"   \<comment> \<open>"cookieauth: no session object has been set: %w"\<close>

text \<open>
  \<^verbatim>\<open>buildAuthRequest\<close>. \<open>json_encode\<close> is the JSON encoder on the user name and the
  password.
\<close>

definition buildAuthRequest ::
  "net_lib \<Rightarrow> (string \<Rightarrow> string \<Rightarrow> 'j + string) \<Rightarrow> CookieAuthTransport \<Rightarrow> heap \<Rightarrow>
   go_panic + (heap \<times> ('j auth_request_error + request))" where
  "buildAuthRequest lib json_encode t h =
    (case json_encode (Username t) (Password t) of
       Inl err \<Rightarrow> Inr (h, Inl (FailedToEncodeBody err))
     | Inr b \<Rightarrow>
         (case NewRequestWithContext lib h (Some 0) ''POST'' (AuthURL t) (Some b) of
            Inl err \<Rightarrow> Inr (h, Inl (FailedToCreateRequest err))
          | Inr (req, h1) \<Rightarrow>
              (case Header_Set h1 (Header req) ''Content-Type'' ''application/json'' of
                 Inl p \<Rightarrow> Inl p
               | Inr h2 \<Rightarrow> Inr (h2, Inr req))))"

text \<open>
  \<^verbatim>\<open>setSessionObject\<close>, the login exchange. \<open>authClient_Do\<close> is the call
  \<^verbatim>\<open>authClient.Do(req)\<close> on the client created for the login: it yields an error or
  a response. The function stores the cookies of the response and reads nothing else
  of it, the status included. The result is the transport with its session, the store,
  and the error (nil is \<open>None\<close>).
\<close>

definition setSessionObject ::
  "net_lib \<Rightarrow> (string \<Rightarrow> string \<Rightarrow> 'j + string) \<Rightarrow> (heap \<Rightarrow> request \<Rightarrow> 'e + auth_response) \<Rightarrow>
   CookieAuthTransport \<Rightarrow> heap \<Rightarrow>
   go_panic + (CookieAuthTransport \<times> heap \<times> ('e, 'j) session_error option)" where
  "setSessionObject lib json_encode authClient_Do t h =
    (case buildAuthRequest lib json_encode t h of
       Inl p \<Rightarrow> Inl p
     | Inr (h1, Inl err) \<Rightarrow> Inr (t, h1, Some (FailedToCreateAuthRequest err))
     | Inr (h1, Inr req) \<Rightarrow>
         (case authClient_Do h1 req of
            Inl err \<Rightarrow> Inr (t, h1, Some (FailedToAuthenticate err))
          | Inr resp \<Rightarrow> Inr (t\<lparr>SessionObject := Some (AuthCookies resp)\<rparr>, h1, None)))"

text \<open>The loop of \<^verbatim>\<open>RoundTrip\<close> over the session cookies: a cookie with an empty value
  is skipped.\<close>

fun add_session_cookies :: "net_lib \<Rightarrow> heap \<Rightarrow> request \<Rightarrow> Cookie list \<Rightarrow> go_panic + heap" where
  "add_session_cookies lib h req2 [] = Inr h"
| "add_session_cookies lib h req2 (cookie # cookies) =
    (if Value cookie \<noteq> [] then
       (case AddCookie lib h req2 cookie of
          Inl p \<Rightarrow> Inl p
        | Inr h' \<Rightarrow> add_session_cookies lib h' req2 cookies)
     else add_session_cookies lib h req2 cookies)"

text \<open>\<^verbatim>\<open>CookieAuthTransport.RoundTrip\<close>. The result carries the transport, whose session
  the call may have set.\<close>

definition Cookie_RoundTrip ::
  "(heap \<Rightarrow> request \<Rightarrow> 'r) \<Rightarrow> net_lib \<Rightarrow> (string \<Rightarrow> string \<Rightarrow> 'j + string) \<Rightarrow>
   (heap \<Rightarrow> request \<Rightarrow> 'e + auth_response) \<Rightarrow> CookieAuthTransport \<Rightarrow> heap \<Rightarrow> request option \<Rightarrow>
   go_panic + (CookieAuthTransport \<times> (('e, 'j) cookie_error, 'r) round_trip)" where
  "Cookie_RoundTrip transport lib json_encode authClient_Do t h req =
    (case (if SessionObject t = None then setSessionObject lib json_encode authClient_Do t h
           else Inr (t, h, None)) of
       Inl p \<Rightarrow> Inl p
     | Inr (t1, h1, Some err) \<Rightarrow> Inr (t1, RTError (NoSessionObject err))
     | Inr (t1, h1, None) \<Rightarrow>
         (case cloneRequest h1 req of
            Inl p \<Rightarrow> Inl p
          | Inr (req2, h2) \<Rightarrow>
              (case add_session_cookies lib h2 req2
                      (case SessionObject t1 of None \<Rightarrow> [] | Some cookies \<Rightarrow> cookies) of
                 Inl p \<Rightarrow> Inl p
               | Inr h3 \<Rightarrow> Inr (t1, RTDelegated req2 h3 (transport h3 req2)))))"

text \<open>The \<open>Cookie\<close> line that results from attaching the cookies \<open>cs\<close> to a request whose
  line was \<open>cur\<close> (empty when it had none): the pairs \<open>name=value\<close> joined with \<open>; \<close>.\<close>

definition cookie_pair :: "net_lib \<Rightarrow> Cookie \<Rightarrow> string" where
  "cookie_pair lib c = sanitizeCookieName lib (Name c) @ ''='' @ sanitizeCookieValue lib (Value c)"

definition cookie_line :: "net_lib \<Rightarrow> string \<Rightarrow> Cookie list \<Rightarrow> string" where
  "cookie_line lib cur cs = Join ((if cur = [] then [] else [cur]) @ map (cookie_pair lib) cs) ''; ''"

definition demo_cookie_transport :: CookieAuthTransport where
  "demo_cookie_transport = \<lparr>Username = ''user'', Password = ''pass'',
     AuthURL = ''http://jira.example/rest/auth/1/session'', SessionObject = None\<rparr>"

definition demo_json_encode :: "string \<Rightarrow> string \<Rightarrow> unit + string" where
  "demo_json_encode u p = Inr (''{\"username\":\"'' @ u @ ''\",\"password\":\"'' @ p @ ''\"}'')"

text \<open>An underlying transport and four login exchanges for running the model: one that
  answers 200 without cookies, one that rejects the credentials with 401 and no
  cookies, one that answers 200 with the demo cookies, and one whose connection is
  refused.\<close>

definition demo_transport :: "heap \<Rightarrow> request \<Rightarrow> unit" where
  "demo_transport h req = ()"

definition demo_cookies :: "Cookie list" where
  "demo_cookies = [\<lparr>Name = ''JSESSIONID'', Value = ''abc''\<rparr>, \<lparr>Name = ''empty'', Value = []\<rparr>]"

definition demo_login_no_cookies :: "heap \<Rightarrow> request \<Rightarrow> string + auth_response" where
  "demo_login_no_cookies h req = Inr \<lparr>AuthStatusCode = 200, AuthCookies = []\<rparr>"

definition demo_login_rejected :: "heap \<Rightarrow> request \<Rightarrow> string + auth_response" where
  "demo_login_rejected h req = Inr \<lparr>AuthStatusCode = 401, AuthCookies = []\<rparr>"

definition demo_login_accepted :: "heap \<Rightarrow> request \<Rightarrow> string + auth_response" where
  "demo_login_accepted h req = Inr \<lparr>AuthStatusCode = 200, AuthCookies = demo_cookies\<rparr>"

definition demo_login_refused :: "heap \<Rightarrow> request \<Rightarrow> string + auth_response" where
  "demo_login_refused h req = Inl ''connection refused''"

text \<open>A client in session mode whose session holds the demo cookies.\<close>

definition demo_session_client :: Client where
  "demo_session_client =
     \<lparr>baseURL = empty_URL\<lparr>Scheme := ''http'', Host := ''jira.example'', Path := ''/''\<rparr>,
      session = Some demo_cookies, authType = authTypeSession, username = [], password = []\<rparr>"


section \<open>Theorems about Client.Do\<close>

text \<open>
  C10. When the underlying client returns a nil response together with a nil error,
  \<^verbatim>\<open>Do\<close> returns the error "no response returned", no parsed value and the nil
  response: nothing of the nil response is read.
\<close>

theorem C10_nil_response_is_an_error:
  "Do ParseBytes NewJiraRequestError (None, None) = Inr (None, None, Some NoResponseReturned)"
  by (simp add: Do_def)


text \<open>
  C1, counterexample. Status 500 with the body \<open>oops\<close>, which is not JSON: the parse
  failure is returned before the status is looked at, so the error is
  "failed to parse body", not the API error. The response is returned with its body reset.
\<close>

theorem C1_counterexample_parse_failure_hides_status:
  "Do demo_parser demo_api_error
      (Some \<lparr>StatusCode = 500, Body = Some \<lparr>pending = ''oops'', read_err = (None :: string option)\<rparr>\<rparr>, None)
    = Inr (None,
           Some \<lparr>StatusCode = 500, Body = Some \<lparr>pending = ''oops'', read_err = None\<rparr>\<rparr>,
           Some (ParseBodyError ''cannot parse JSON''))
   \<and> \<not> returns_api_error
        (Do demo_parser demo_api_error
          (Some \<lparr>StatusCode = 500, Body = Some \<lparr>pending = ''oops'', read_err = (None :: string option)\<rparr>\<rparr>, None))"
  by (simp add: Do_def ReadAll_def NopCloser_NewBuffer_def demo_parser_def returns_api_error_def)

text \<open>
  C1, amended. For a response with a status outside [200,299] whose body is read to the
  end without error, \<^verbatim>\<open>Do\<close> resets the body to the bytes read, so that the response
  keeps its status and its body reads again as those bytes, and always returns a
  non-nil error. When the bytes do not parse as JSON, the error is the parse error,
  not the API error, no value is returned, and the response returned is the one with
  the body reset. When the bytes parse, the error is the API error that
  \<^verbatim>\<open>NewJiraRequestError\<close> builds from the response with the body reset, the parsed
  value is returned with it, and the response returned is that response as
  \<^verbatim>\<open>NewJiraRequestError\<close> leaves it: its body reads again as the bytes whenever
  \<^verbatim>\<open>NewJiraRequestError\<close> leaves the body alone.
\<close>

theorem C1_non_2xx_error_amended:
  assumes "\<not> (200 \<le> StatusCode resp \<and> StatusCode resp \<le> 299)"
    and "Body resp = Some b"
    and "read_err b = None"
  shows "(let resp1 = resp\<lparr>Body := Some (NopCloser_NewBuffer (pending b))\<rparr> in
      StatusCode resp1 = StatusCode resp
      \<and> read_again resp1 = Some (pending b, None)
      \<and> (case ParseBytes (pending b) of
            Inl perr \<Rightarrow>
              Do ParseBytes NewJiraRequestError (Some resp, None)
                = Inr (None, Some resp1, Some (ParseBodyError perr))
          | Inr val \<Rightarrow>
              Do ParseBytes NewJiraRequestError (Some resp, None)
                = Inr (Some val, Some (snd (NewJiraRequestError resp1)),
                       Some (JiraRequestError (fst (NewJiraRequestError resp1))))
              \<and> (Body (snd (NewJiraRequestError resp1)) = Body resp1 \<longrightarrow>
                   read_again (snd (NewJiraRequestError resp1)) = Some (pending b, None))))"
proof -
  let ?resp1 = "resp\<lparr>Body := Some (NopCloser_NewBuffer (pending b))\<rparr>"
  have again: "read_again ?resp1 = Some (pending b, None)"
    by (simp add: read_again_def ReadAll_def NopCloser_NewBuffer_def)
  have kept: "Body (snd (NewJiraRequestError ?resp1)) = Body ?resp1 \<longrightarrow>
      read_again (snd (NewJiraRequestError ?resp1)) = Some (pending b, None)"
    using again by (simp add: read_again_def)
  show ?thesis
  proof (cases "ParseBytes (pending b)")
    case (Inl perr)
    have "Do ParseBytes NewJiraRequestError (Some resp, None)
        = Inr (None, Some ?resp1, Some (ParseBodyError perr))"
      using assms Inl by (simp add: Do_def ReadAll_def Let_def)
    then show ?thesis
      using again Inl by (simp add: Let_def)
  next
    case (Inr val)
    have "Do ParseBytes NewJiraRequestError (Some resp, None)
        = Inr (Some val, Some (snd (NewJiraRequestError ?resp1)),
               Some (JiraRequestError (fst (NewJiraRequestError ?resp1))))"
      using assms Inr by (simp add: Do_def ReadAll_def Let_def split: prod.splits)
    then show ?thesis
      using again kept Inr by (simp add: Let_def)
  qed
qed

text \<open>
  The amended statement at three inputs: status 404 with the JSON body \<open>{}\<close> and a
  constructor that leaves the response alone, where the body reads again; status 500
  with the body \<open>oops\<close>, where the parse error is returned and the body reads again;
  and status 404 with \<open>{}\<close> and a constructor that reads the body, where the response
  comes back with its body read to the end.
\<close>

theorem C1_non_2xx_error_amended_witness:
  "Do demo_parser demo_api_error
      (Some \<lparr>StatusCode = 404, Body = Some \<lparr>pending = ''{}'', read_err = (None :: string option)\<rparr>\<rparr>, None)
    = Inr (Some (),
           Some \<lparr>StatusCode = 404, Body = Some \<lparr>pending = ''{}'', read_err = None\<rparr>\<rparr>,
           Some (JiraRequestError 404))
   \<and> read_again \<lparr>StatusCode = 404, Body = Some \<lparr>pending = ''{}'', read_err = (None :: string option)\<rparr>\<rparr>
       = Some (''{}'', None)
   \<and> Do demo_parser demo_api_error
      (Some \<lparr>StatusCode = 500, Body = Some \<lparr>pending = ''oops'', read_err = (None :: string option)\<rparr>\<rparr>, None)
    = Inr (None,
           Some \<lparr>StatusCode = 500, Body = Some \<lparr>pending = ''oops'', read_err = None\<rparr>\<rparr>,
           Some (ParseBodyError ''cannot parse JSON''))
   \<and> read_again \<lparr>StatusCode = 500, Body = Some \<lparr>pending = ''oops'', read_err = (None :: string option)\<rparr>\<rparr>
       = Some (''oops'', None)
   \<and> Do demo_parser demo_api_error_reading
      (Some \<lparr>StatusCode = 404, Body = Some \<lparr>pending = ''{}'', read_err = (None :: string option)\<rparr>\<rparr>, None)
    = Inr (Some (),
           Some \<lparr>StatusCode = 404, Body = Some \<lparr>pending = [], read_err = None\<rparr>\<rparr>,
           Some (JiraRequestError 404))"
proof -
  have 1: "Do demo_parser demo_api_error
      (Some \<lparr>StatusCode = 404, Body = Some \<lparr>pending = ''{}'', read_err = (None :: string option)\<rparr>\<rparr>, None)
    = Inr (Some (),
           Some \<lparr>StatusCode = 404, Body = Some \<lparr>pending = ''{}'', read_err = None\<rparr>\<rparr>,
           Some (JiraRequestError 404))
   \<and> read_again \<lparr>StatusCode = 404, Body = Some \<lparr>pending = ''{}'', read_err = (None :: string option)\<rparr>\<rparr>
       = Some (''{}'', None)"
    using C1_non_2xx_error_amended
      [of "\<lparr>StatusCode = 404, Body = Some \<lparr>pending = ''{}'', read_err = (None :: string option)\<rparr>\<rparr>"
          "\<lparr>pending = ''{}'', read_err = (None :: string option)\<rparr>" demo_parser demo_api_error]
    by (simp add: NopCloser_NewBuffer_def demo_parser_def demo_api_error_def Let_def)
  have 2: "Do demo_parser demo_api_error
      (Some \<lparr>StatusCode = 500, Body = Some \<lparr>pending = ''oops'', read_err = (None :: string option)\<rparr>\<rparr>, None)
    = Inr (None,
           Some \<lparr>StatusCode = 500, Body = Some \<lparr>pending = ''oops'', read_err = None\<rparr>\<rparr>,
           Some (ParseBodyError ''cannot parse JSON''))
   \<and> read_again \<lparr>StatusCode = 500, Body = Some \<lparr>pending = ''oops'', read_err = (None :: string option)\<rparr>\<rparr>
       = Some (''oops'', None)"
    using C1_non_2xx_error_amended
      [of "\<lparr>StatusCode = 500, Body = Some \<lparr>pending = ''oops'', read_err = (None :: string option)\<rparr>\<rparr>"
          "\<lparr>pending = ''oops'', read_err = (None :: string option)\<rparr>" demo_parser demo_api_error]
    by (simp add: NopCloser_NewBuffer_def demo_parser_def Let_def)
  have 3: "Do demo_parser demo_api_error_reading
      (Some \<lparr>StatusCode = 404, Body = Some \<lparr>pending = ''{}'', read_err = (None :: string option)\<rparr>\<rparr>, None)
    = Inr (Some (),
           Some \<lparr>StatusCode = 404, Body = Some \<lparr>pending = [], read_err = None\<rparr>\<rparr>,
           Some (JiraRequestError 404))"
    using C1_non_2xx_error_amended
      [of "\<lparr>StatusCode = 404, Body = Some \<lparr>pending = ''{}'', read_err = (None :: string option)\<rparr>\<rparr>"
          "\<lparr>pending = ''{}'', read_err = (None :: string option)\<rparr>" demo_parser demo_api_error_reading]
    by (simp add: NopCloser_NewBuffer_def demo_parser_def demo_api_error_reading_def ReadAll_def Let_def)
  show ?thesis
    using 1 2 3 by simp
qed

section \<open>Theorems about the canonical request\<close>

subsection \<open>The loop computes the sorted encoded pairs\<close>

lemma Join_two: "Join [a, b] sep = a @ sep @ b" by simp

lemma Join_empty_sep: "Join v [] = concat v"
  by (induction v "[] :: string" rule: Join.induct) simp_all

lemma canonicalQueryString_loop_eq:
  "canonicalQueryString_loop entries acc =
     acc @ map encoded_pair (filter (\<lambda>kv. fst kv \<noteq> ''jwt'') entries)"
proof (induction entries arbitrary: acc)
  case Nil
  show ?case by simp
next
  case (Cons e entries)
  obtain k v where e: "e = (k, v)" by (cases e)
  show ?case
  proof (cases "k = ''jwt''")
    case True
    then show ?thesis unfolding e by (simp add: Cons.IH)
  next
    case False
    then show ?thesis unfolding e
      by (simp add: Cons.IH Let_def encoded_pair_def Join_empty_sep)
  qed
qed

lemma canonicalizeRequest_visiting_eq:
  "canonicalizeRequest_visiting uu m u entries =
     Join [ToUpper uu m, canonical_path u,
           Join (sort (map encoded_pair (filter (\<lambda>kv. fst kv \<noteq> ''jwt'') entries))) ''&''] ''&''"
  by (simp add: canonicalizeRequest_visiting_def Let_def canonicalQueryString_loop_eq
      canonical_path_def)

lemma sort_map_filter_mset:
  fixes f :: "'a \<Rightarrow> 'b :: linorder"
  assumes "mset xs = mset ys"
  shows "sort (map f (filter P xs)) = sort (map f (filter P ys))"
proof -
  have "mset (map f (filter P xs)) = mset (map f (filter P ys))"
    using assms by (metis mset_filter mset_map)
  then have "mset (sort (map f (filter P ys))) = mset (map f (filter P xs))"
    by simp
  then show ?thesis
    by (rule properties_for_sort) simp
qed

lemma visiting_order_irrelevant:
  assumes "mset entries = mset entries'"
  shows "canonicalizeRequest_visiting uu m u entries = canonicalizeRequest_visiting uu m u entries'"
  by (simp add: canonicalizeRequest_visiting_eq sort_map_filter_mset [OF assms])

subsection \<open>The query map of a raw query\<close>

lemma parseQuery_piece_decode:
  "parseQuery_piece m piece =
     (case decode_piece piece of None \<Rightarrow> m | Some kv \<Rightarrow> values_append m (fst kv) (snd kv))"
proof -
  obtain key val b where c: "Cut piece CHR ''='' = (key, val, b)"
    by (cases "Cut piece CHR ''=''") auto
  show ?thesis
    by (cases "QueryUnescape key"; cases "QueryUnescape val")
       (simp_all add: parseQuery_piece_def decode_piece_def c)
qed

lemma foldl_parseQuery_piece:
  "foldl parseQuery_piece m pieces = foldl add_pair m (List.map_filter decode_piece pieces)"
proof (induction pieces arbitrary: m)
  case Nil
  show ?case by (simp add: List.map_filter_simps)
next
  case (Cons p pieces)
  show ?case
  proof (cases "decode_piece p")
    case None
    then have "parseQuery_piece m p = m"
      by (simp add: parseQuery_piece_decode)
    then show ?thesis
      using Cons.IH [of m] None by (simp add: List.map_filter_simps)
  next
    case (Some kv)
    then have "parseQuery_piece m p = add_pair m kv"
      by (simp add: parseQuery_piece_decode add_pair_def)
    then show ?thesis
      using Cons.IH [of "add_pair m kv"] Some by (simp add: List.map_filter_simps)
  qed
qed

lemma keys_values_append: "set (map fst (values_append m k v)) = insert k (set (map fst m))"
  by (induction m k v rule: values_append.induct) auto

lemma distinct_values_append:
  "distinct (map fst m) \<Longrightarrow> distinct (map fst (values_append m k v))"
proof (induction m k v rule: values_append.induct)
  case (1 k v)
  show ?case by simp
next
  case (2 k' vs m k v)
  then show ?case
    using keys_values_append [of m k v] by auto
qed

lemma map_of_values_append:
  "map_of (values_append m k v) =
     (map_of m)(k \<mapsto> (case map_of m k of None \<Rightarrow> [v] | Some vs \<Rightarrow> vs @ [v]))"
  by (induction m k v rule: values_append.induct) (auto simp: fun_eq_iff)

lemma distinct_foldl_add_pair:
  "distinct (map fst m) \<Longrightarrow> distinct (map fst (foldl add_pair m ps))"
proof (induction ps arbitrary: m)
  case Nil
  then show ?case by simp
next
  case (Cons p ps)
  have "distinct (map fst (add_pair m p))"
    using Cons.prems by (simp add: add_pair_def distinct_values_append)
  then show ?case
    using Cons.IH [of "add_pair m p"] by simp
qed

lemma map_of_add_pair:
  "map_of (add_pair m p) =
      (map_of m)(fst p \<mapsto> (case map_of m (fst p) of None \<Rightarrow> [snd p] | Some vs \<Rightarrow> vs @ [snd p]))"
  by (simp add: add_pair_def map_of_values_append)

lemma map_of_foldl_add_pair:
  "map_of (foldl add_pair m ps) k =
     (let new = map snd (filter (\<lambda>kv. fst kv = k) ps) in
      if new = [] then map_of m k
      else Some ((case map_of m k of None \<Rightarrow> [] | Some vs \<Rightarrow> vs) @ new))"
proof (induction ps arbitrary: m)
  case Nil
  show ?case by simp
next
  case (Cons p ps)
  have "map_of (foldl add_pair m (p # ps)) k = map_of (foldl add_pair (add_pair m p) ps) k"
    by simp
  also have "\<dots> =
     (let new = map snd (filter (\<lambda>kv. fst kv = k) ps) in
      if new = [] then map_of (add_pair m p) k
      else Some ((case map_of (add_pair m p) k of None \<Rightarrow> [] | Some vs \<Rightarrow> vs) @ new))"
    by (rule Cons.IH)
  also have "\<dots> =
     (let new = map snd (filter (\<lambda>kv. fst kv = k) (p # ps)) in
      if new = [] then map_of m k
      else Some ((case map_of m k of None \<Rightarrow> [] | Some vs \<Rightarrow> vs) @ new))"
    by (cases "fst p = k"; cases "map_of m k") (simp_all add: map_of_add_pair Let_def)
  finally show ?case .
qed

lemma map_of_ParseQuery:
  "map_of (ParseQuery q) k =
     (if values_in_order q k = [] then None else Some (values_in_order q k))"
  by (simp add: ParseQuery_def foldl_parseQuery_piece map_of_foldl_add_pair values_in_order_def Let_def)

lemma distinct_ParseQuery: "distinct (map fst (ParseQuery q))"
  by (simp add: ParseQuery_def foldl_parseQuery_piece distinct_foldl_add_pair)

lemma distinct_keys_distinct: "distinct (map fst xs) \<Longrightarrow> distinct xs"
  by (simp add: distinct_map)

lemma mset_ParseQuery_cong:
  assumes "\<And>k. values_in_order q1 k = values_in_order q2 k"
  shows "mset (ParseQuery q1) = mset (ParseQuery q2)"
proof -
  have "map_of (ParseQuery q1) = map_of (ParseQuery q2)"
    by (rule ext) (simp add: map_of_ParseQuery assms)
  then have "set (ParseQuery q1) = set (ParseQuery q2)"
    using map_of_inject_set [OF distinct_ParseQuery distinct_ParseQuery] by blast
  then show ?thesis
    using set_eq_iff_mset_eq_distinct
      [OF distinct_keys_distinct [OF distinct_ParseQuery] distinct_keys_distinct [OF distinct_ParseQuery]]
    by blast
qed

lemma canonicalizeRequest_values_cong:
  assumes "Path u1 = Path u2"
    and "\<And>k. values_in_order (RawQuery u1) k = values_in_order (RawQuery u2) k"
  shows "canonicalizeRequest uu m u1 = canonicalizeRequest uu m u2"
proof -
  have "mset (Query u1) = mset (Query u2)"
    unfolding Query_def using assms(2) by (rule mset_ParseQuery_cong)
  from sort_map_filter_mset [OF this, of encoded_pair "\<lambda>kv. fst kv \<noteq> ''jwt''"] show ?thesis
    using assms(1)
    by (simp add: canonicalizeRequest_def canonicalizeRequest_visiting_eq canonical_path_def)
qed

subsection \<open>The functions of the code and the words of the specification\<close>

lemma upper_byte_spec: "\<forall>c. upper_byte c = spec_upper_letter c"
  by code_simp

lemma ascii_byte_spec: "\<forall>c. (byte c < 128) = (c < CHR 0x80)"
  by code_simp

lemma escape_byte_spec:
  "\<forall>c. Replace (escape_byte encodeQueryComponent c) CHR ''+'' ''%20'' = spec_percent_byte c"
  by code_simp

lemma spec_percent_byte_no_plus:
  "\<forall>c. spec_plus_to_percent20 (spec_percent_byte c) = spec_percent_byte c"
  by code_simp

lemma ToUpper_spec: "ToUpper uu m = spec_upper uu m"
proof -
  have a: "list_all (\<lambda>c. byte c < 128) m = list_all (\<lambda>c. c < CHR 0x80) m"
    using ascii_byte_spec by (simp add: list_all_iff)
  have b: "map upper_byte m = map spec_upper_letter m"
    using upper_byte_spec by simp
  show ?thesis
    unfolding ToUpper_def spec_upper_def a b ..
qed

lemma TrimLeft_spec: "TrimLeft s CHR ''/'' = spec_trim_leading s"
  by (induction s) (simp_all add: TrimLeft_def)

lemma Trim_spec: "Trim s CHR ''/'' = spec_trim_slashes s"
proof -
  have "TrimRight s CHR ''/'' = rev (spec_trim_leading (rev s))"
    using TrimLeft_spec [of "rev s"] by (simp add: TrimRight_def TrimLeft_def)
  then show ?thesis
    by (simp add: Trim_def spec_trim_slashes_def TrimLeft_spec)
qed

lemma Replace_ampersand_spec: "Replace s CHR ''&'' ''%26'' = spec_encode_ampersand s"
  by (induction s) (simp_all add: Replace_def)

lemma Replace_append: "Replace (a @ b) old new = Replace a old new @ Replace b old new"
  by (simp add: Replace_def)

lemma Replace_QueryEscape_spec:
  "Replace (QueryEscape s) CHR ''+'' ''%20'' = spec_percent_encode s"
proof (induction s)
  case Nil
  show ?case by (simp add: QueryEscape_def escape_def Replace_def spec_percent_encode_def)
next
  case (Cons c s)
  have "QueryEscape (c # s) = escape_byte encodeQueryComponent c @ QueryEscape s"
    by (simp add: QueryEscape_def escape_def)
  then show ?case
    using Cons.IH escape_byte_spec by (simp add: Replace_append spec_percent_encode_def)
qed

lemma spec_plus_append:
  "spec_plus_to_percent20 (a @ b) = spec_plus_to_percent20 a @ spec_plus_to_percent20 b"
  by (induction a) simp_all

lemma spec_plus_percent_encode:
  "spec_plus_to_percent20 (spec_percent_encode s) = spec_percent_encode s"
proof (induction s)
  case Nil
  show ?case by (simp add: spec_percent_encode_def)
next
  case (Cons c s)
  have "spec_percent_encode (c # s) = spec_percent_byte c @ spec_percent_encode s"
    by (simp add: spec_percent_encode_def)
  then show ?case
    using Cons.IH spec_percent_byte_no_plus by (simp add: spec_plus_append)
qed

lemma encoded_pair_spec: "encoded_pair kv = spec_pair kv"
proof -
  have "encoded_pair kv = Replace (QueryEscape (fst kv)) CHR ''+'' ''%20'' @ ''=''
      @ Replace (QueryEscape (concat (snd kv))) CHR ''+'' ''%20''"
    by (simp add: encoded_pair_def Replace_append) (simp add: Replace_def)
  also have "\<dots> = spec_percent_encode (fst kv) @ ''='' @ spec_percent_encode (concat (snd kv))"
    by (simp only: Replace_QueryEscape_spec)
  also have "\<dots> = spec_pair kv"
    by (simp add: spec_pair_def spec_plus_append spec_plus_percent_encode)
  finally show ?thesis .
qed

lemma Join_spec: "Join xs sep = spec_join xs sep"
proof (induction xs sep rule: Join.induct)
  case (1 sep)
  show ?case by simp
next
  case (2 x sep)
  show ?case by simp
next
  case (3 x y ys sep)
  then show ?case by simp
qed

lemma canonical_path_spec: "canonical_path u = spec_canonical_path u"
  by (simp add: canonical_path_def spec_canonical_path_def Trim_spec Replace_ampersand_spec)

lemma canonicalizeRequest_spec:
  "canonicalizeRequest uu m u = spec_canonical uu m u"
proof -
  have "map encoded_pair xs = map spec_pair xs" for xs
    by (simp add: encoded_pair_spec)
  then show ?thesis
    by (simp only: canonicalizeRequest_def canonicalizeRequest_visiting_eq spec_canonical_def
        ToUpper_spec canonical_path_spec Join_spec)
qed

text \<open>
  C3. For every method and URL, \<^verbatim>\<open>canonicalizeRequest\<close> returns the string the
  specification describes: the upper-cased method, the path trimmed of leading and
  trailing slashes, prefixed with one slash and with \<open>&\<close> written \<open>%26\<close>, and the
  sorted pairs \<open>key=value\<close> of every query parameter but \<open>jwt\<close> (key and concatenated
  values percent-encoded, \<open>+\<close> replaced by \<open>%20\<close>), joined with \<open>&\<close>. With no query
  parameter the result is the method, \<open>&\<close>, the path and a trailing \<open>&\<close>. The method
  \<open>GET\<close> with the path \<open>/a/b/\<close> and the query \<open>z=1&a=2\<close> gives \<open>GET&/a/b&a=2&z=1\<close>.
  The method \<open>post\<close> with the path \<open>//x&y/z//\<close> and the query
  \<open>q=a+b%2Bc&jwt=tok&k%26=v&q=%c3%a9&B=~&s=%2f%3D\<close> gives
  \<open>POST&/x%26y/z&B=~&k%26=v&q=a%20b%2Bc%C3%A9&s=%2F%3D\<close>: the space that \<open>a+b\<close> decodes to
  is written \<open>%20\<close>, the decoded \<open>+\<close>, \<open>&\<close>, \<open>/\<close> and \<open>=\<close> and the two bytes outside ASCII are
  percent-encoded in capitals, the two values of \<open>q\<close> are concatenated, \<open>jwt\<close> is left out,
  and the pairs are in byte order, \<open>B\<close> before \<open>k\<close>.
\<close>

theorem C3_canonicalizeRequest_matches_spec:
  "canonicalizeRequest unicode_upper httpMethod u = spec_canonical unicode_upper httpMethod u
   \<and> (Query u = [] \<longrightarrow>
        canonicalizeRequest unicode_upper httpMethod u =
          spec_upper unicode_upper httpMethod @ ''&'' @ spec_canonical_path u @ ''&'')
   \<and> canonicalizeRequest unicode_upper ''GET'' (demo_URL ''/a/b/'' ''z=1&a=2'') = ''GET&/a/b&a=2&z=1''
   \<and> canonicalizeRequest unicode_upper ''post''
        (demo_URL ''//x&y/z//'' ''q=a+b%2Bc&jwt=tok&k%26=v&q=%c3%a9&B=~&s=%2f%3D'')
      = ''POST&/x%26y/z&B=~&k%26=v&q=a%20b%2Bc%C3%A9&s=%2F%3D''"
proof (intro conjI impI)
  show "canonicalizeRequest unicode_upper httpMethod u = spec_canonical unicode_upper httpMethod u"
    by (rule canonicalizeRequest_spec)
next
  assume "Query u = []"
  then show "canonicalizeRequest unicode_upper httpMethod u =
      spec_upper unicode_upper httpMethod @ ''&'' @ spec_canonical_path u @ ''&''"
    by (simp add: canonicalizeRequest_spec spec_canonical_def)
next
  show "canonicalizeRequest unicode_upper ''GET'' (demo_URL ''/a/b/'' ''z=1&a=2'') = ''GET&/a/b&a=2&z=1''"
    by code_simp
next
  show "canonicalizeRequest unicode_upper ''post''
        (demo_URL ''//x&y/z//'' ''q=a+b%2Bc&jwt=tok&k%26=v&q=%c3%a9&B=~&s=%2f%3D'')
      = ''POST&/x%26y/z&B=~&k%26=v&q=a%20b%2Bc%C3%A9&s=%2F%3D''"
    by code_simp
qed

theorem C3_canonicalizeRequest_matches_spec_witness:
  "Query (demo_URL ''/rest/api/2/issue/10000'' []) = []
   \<and> canonicalizeRequest id ''get'' (demo_URL ''/rest/api/2/issue/10000'' [])
       = ''GET&/rest/api/2/issue/10000&''
   \<and> spec_canonical id ''post''
        (demo_URL ''//x&y/z//'' ''q=a+b%2Bc&jwt=tok&k%26=v&q=%c3%a9&B=~&s=%2f%3D'')
      = ''POST&/x%26y/z&B=~&k%26=v&q=a%20b%2Bc%C3%A9&s=%2F%3D''"
proof -
  have q: "Query (demo_URL ''/rest/api/2/issue/10000'' []) = []"
    by code_simp
  have m: "spec_upper id ''get'' = ''GET''"
    by code_simp
  have p: "spec_canonical_path (demo_URL ''/rest/api/2/issue/10000'' []) = ''/rest/api/2/issue/10000''"
    by code_simp
  have "canonicalizeRequest id ''get'' (demo_URL ''/rest/api/2/issue/10000'' []) =
          spec_upper id ''get'' @ ''&'' @ spec_canonical_path (demo_URL ''/rest/api/2/issue/10000'' []) @ ''&''"
    using C3_canonicalizeRequest_matches_spec [of id "''get''" "demo_URL ''/rest/api/2/issue/10000'' []"] q
    by blast
  then have z: "canonicalizeRequest id ''get'' (demo_URL ''/rest/api/2/issue/10000'' [])
       = ''GET&/rest/api/2/issue/10000&''"
    by (simp add: m p)
  have "spec_canonical id ''post''
        (demo_URL ''//x&y/z//'' ''q=a+b%2Bc&jwt=tok&k%26=v&q=%c3%a9&B=~&s=%2f%3D'')
      = canonicalizeRequest id ''post''
        (demo_URL ''//x&y/z//'' ''q=a+b%2Bc&jwt=tok&k%26=v&q=%c3%a9&B=~&s=%2f%3D'')"
    using C3_canonicalizeRequest_matches_spec
      [of id "''post''" "demo_URL ''//x&y/z//'' ''q=a+b%2Bc&jwt=tok&k%26=v&q=%c3%a9&B=~&s=%2f%3D''"]
    by simp
  also have "\<dots> = ''POST&/x%26y/z&B=~&k%26=v&q=a%20b%2Bc%C3%A9&s=%2F%3D''"
    using C3_canonicalizeRequest_matches_spec
      [of id "''post''" "demo_URL ''//x&y/z//'' ''q=a+b%2Bc&jwt=tok&k%26=v&q=%c3%a9&B=~&s=%2f%3D''"]
    by blast
  finally show ?thesis
    using q z by simp
qed

text \<open>
  C4, counterexample. The raw queries \<open>a=1&a=2\<close> and \<open>a=2&a=1\<close> hold the same
  parameters in a different order, and their canonical strings differ: the values of a
  repeated name are concatenated in the order they appear in the URL.
\<close>

theorem C4_counterexample_repeated_name:
  "mset (Split ''a=1&a=2'' CHR ''&'') = mset (Split ''a=2&a=1'' CHR ''&'')
   \<and> canonicalizeRequest id ''GET'' (demo_URL ''/'' ''a=1&a=2'') = ''GET&/&a=12''
   \<and> canonicalizeRequest id ''GET'' (demo_URL ''/'' ''a=2&a=1'') = ''GET&/&a=21''
   \<and> canonicalizeRequest id ''GET'' (demo_URL ''/'' ''a=1&a=2'')
       \<noteq> canonicalizeRequest id ''GET'' (demo_URL ''/'' ''a=2&a=1'')"
proof -
  have 1: "mset (Split ''a=1&a=2'' CHR ''&'') = mset (Split ''a=2&a=1'' CHR ''&'')"
    by (simp add: add_mset_commute)
  have 2: "canonicalizeRequest id ''GET'' (demo_URL ''/'' ''a=1&a=2'') = ''GET&/&a=12''"
    by code_simp
  have 3: "canonicalizeRequest id ''GET'' (demo_URL ''/'' ''a=2&a=1'') = ''GET&/&a=21''"
    by code_simp
  show ?thesis
    unfolding 2 3 using 1 by simp
qed

text \<open>
  C4, amended. The canonical string, and with it the hash, does not depend on the order
  in which Go visits the entries of the query map, so two calls on the same method and
  URL agree. It does not depend on the order of the parameters in the URL either, as
  long as the values of each name keep their order of appearance: two URLs with the
  same path whose raw queries give every name the same values in the same order have
  the same canonical string and the same hash. The values a raw query gives a name, in
  their order of appearance, are what the query map holds for the name.
\<close>

theorem C4_canonicalization_deterministic_amended:
  "(mset entries = mset (Query u) \<longrightarrow>
      canonicalizeRequest_visiting unicode_upper httpMethod u entries
        = canonicalizeRequest unicode_upper httpMethod u)
   \<and> (Path u1 = Path u2
        \<and> (\<forall>k. values_in_order (RawQuery u1) k = values_in_order (RawQuery u2) k) \<longrightarrow>
      canonicalizeRequest unicode_upper httpMethod u1 = canonicalizeRequest unicode_upper httpMethod u2
      \<and> createQueryStringHash sha256 unicode_upper httpMethod u1
          = createQueryStringHash sha256 unicode_upper httpMethod u2)
   \<and> map_of (Query u) name =
        (if values_in_order (RawQuery u) name = [] then None
         else Some (values_in_order (RawQuery u) name))"
proof (intro conjI impI)
  show "map_of (Query u) name =
        (if values_in_order (RawQuery u) name = [] then None
         else Some (values_in_order (RawQuery u) name))"
    unfolding Query_def by (rule map_of_ParseQuery)
next
  assume "mset entries = mset (Query u)"
  then show "canonicalizeRequest_visiting unicode_upper httpMethod u entries
      = canonicalizeRequest unicode_upper httpMethod u"
    unfolding canonicalizeRequest_def by (rule visiting_order_irrelevant)
next
  assume h: "Path u1 = Path u2
        \<and> (\<forall>k. values_in_order (RawQuery u1) k = values_in_order (RawQuery u2) k)"
  then have p: "Path u1 = Path u2"
    and vals: "\<And>k. values_in_order (RawQuery u1) k = values_in_order (RawQuery u2) k"
    by simp_all
  from p show eq: "canonicalizeRequest unicode_upper httpMethod u1
      = canonicalizeRequest unicode_upper httpMethod u2"
    using vals by (rule canonicalizeRequest_values_cong)
  show "createQueryStringHash sha256 unicode_upper httpMethod u1
          = createQueryStringHash sha256 unicode_upper httpMethod u2"
    by (simp only: createQueryStringHash_def eq)
qed

text \<open>
  The amended statement at the queries \<open>a=1&a=2&b=3\<close> and \<open>b=3&a=1&a=2\<close>, which place
  the parameter \<open>b\<close> differently and keep the two values of \<open>a\<close> in order.
\<close>

theorem C4_canonicalization_deterministic_amended_witness:
  "canonicalizeRequest_visiting id ''GET'' (demo_URL ''/a/b/'' ''a=1&a=2&b=3'')
       [(''b'', [''3'']), (''a'', [''1'', ''2''])]
     = canonicalizeRequest id ''GET'' (demo_URL ''/a/b/'' ''a=1&a=2&b=3'')
   \<and> canonicalizeRequest id ''GET'' (demo_URL ''/a/b/'' ''a=1&a=2&b=3'')
     = canonicalizeRequest id ''GET'' (demo_URL ''/a/b/'' ''b=3&a=1&a=2'')
   \<and> createQueryStringHash id id ''GET'' (demo_URL ''/a/b/'' ''a=1&a=2&b=3'')
     = createQueryStringHash id id ''GET'' (demo_URL ''/a/b/'' ''b=3&a=1&a=2'')
   \<and> canonicalizeRequest id ''GET'' (demo_URL ''/a/b/'' ''b=3&a=1&a=2'') = ''GET&/a/b&a=12&b=3''"
proof -
  have 1: "mset [(''b'', [''3'']), (''a'', [''1'', ''2''])]
      = mset (Query (demo_URL ''/a/b/'' ''a=1&a=2&b=3''))"
    by code_simp
  have 2: "Path (demo_URL ''/a/b/'' ''a=1&a=2&b=3'') = Path (demo_URL ''/a/b/'' ''b=3&a=1&a=2'')"
    by (simp add: demo_URL_def)
  have r: "\<And>q. RawQuery (demo_URL ''/a/b/'' q) = q"
    by (simp add: demo_URL_def)
  have p1: "List.map_filter decode_piece (Split ''a=1&a=2&b=3'' CHR ''&'')
      = [(''a'', ''1''), (''a'', ''2''), (''b'', ''3'')]"
    by code_simp
  have p2: "List.map_filter decode_piece (Split ''b=3&a=1&a=2'' CHR ''&'')
      = [(''b'', ''3''), (''a'', ''1''), (''a'', ''2'')]"
    by code_simp
  have 3: "\<forall>k. values_in_order (RawQuery (demo_URL ''/a/b/'' ''a=1&a=2&b=3'')) k
      = values_in_order (RawQuery (demo_URL ''/a/b/'' ''b=3&a=1&a=2'')) k"
    unfolding values_in_order_def r p1 p2 by auto
  have 4: "canonicalizeRequest id ''GET'' (demo_URL ''/a/b/'' ''b=3&a=1&a=2'') = ''GET&/a/b&a=12&b=3''"
    by code_simp
  show ?thesis
    using C4_canonicalization_deterministic_amended
      [of "[(''b'', [''3'']), (''a'', [''1'', ''2''])]" "demo_URL ''/a/b/'' ''a=1&a=2&b=3''" id "''GET''"
          "demo_URL ''/a/b/'' ''a=1&a=2&b=3''" "demo_URL ''/a/b/'' ''b=3&a=1&a=2''" id]
      1 2 3 4
    by blast
qed

section \<open>Theorems about the store and cloneRequest\<close>

subsection \<open>Maps and their arrays\<close>

lemma map_of_entries_assign:
  "map_of (entries_assign es k s) = (map_of es)(k \<mapsto> s)"
  by (induction es k s rule: entries_assign.induct) (auto simp: fun_eq_iff)

lemma keys_entries_assign: "set (map fst (entries_assign es k s)) = insert k (set (map fst es))"
  by (induction es k s rule: entries_assign.induct) auto

lemma distinct_entries_assign:
  "distinct (map fst es) \<Longrightarrow> distinct (map fst (entries_assign es k s))"
proof (induction es k s rule: entries_assign.induct)
  case (1 k s)
  show ?case by simp
next
  case (2 k' s' es k s)
  then show ?case
    using keys_entries_assign [of es k s] by auto
qed

lemma set_entries_assign:
  "set (entries_assign es k s) \<subseteq> insert (k, s) (set es)"
  by (induction es k s rule: entries_assign.induct) auto

lemma in_entries_assign: "(k, s) \<in> set (entries_assign es k s)"
  by (induction es k s rule: entries_assign.induct) auto

lemma distinct_entries_delete:
  "distinct (map fst es) \<Longrightarrow> distinct (map fst (entries_delete es k))"
  by (simp add: entries_delete_def distinct_map_filter)

lemma map_of_entries_delete:
  "map_of (entries_delete es k) = (map_of es)(k := None)"
  by (induction es) (auto simp: entries_delete_def fun_eq_iff)

lemma set_map_filter: "set (List.map_filter f xs) = {y. \<exists>x\<in>set xs. f x = Some y}"
proof (induction xs)
  case Nil
  show ?case by (simp add: List.map_filter_simps)
next
  case (Cons x xs)
  then show ?case
    by (cases "f x") (auto simp: List.map_filter_simps)
qed

lemma slice_array_Some: "(slice_array s = Some b) = (\<exists>off n c. s = Slice b off n c)"
  by (cases s) auto

lemma in_header_arrays:
  "b \<in> set (header_arrays h (Some a)) \<longleftrightarrow> (\<exists>k off n c. (k, Slice b off n c) \<in> set (hmaps h a))"
proof
  assume "b \<in> set (header_arrays h (Some a))"
  then obtain e where "e \<in> set (hmaps h a)" and "slice_array (snd e) = Some b"
    by (auto simp: header_arrays_def set_map_filter)
  then obtain off n c where "snd e = Slice b off n c"
    by (auto simp: slice_array_Some)
  with \<open>e \<in> set (hmaps h a)\<close> have "(fst e, Slice b off n c) \<in> set (hmaps h a)"
    by (metis prod.collapse)
  then show "\<exists>k off n c. (k, Slice b off n c) \<in> set (hmaps h a)" by blast
next
  assume "\<exists>k off n c. (k, Slice b off n c) \<in> set (hmaps h a)"
  then obtain k off n c where "(k, Slice b off n c) \<in> set (hmaps h a)" by blast
  then have "\<exists>e\<in>set (hmaps h a). slice_array (snd e) = Some b"
    by force
  then show "b \<in> set (header_arrays h (Some a))"
    by (simp add: header_arrays_def set_map_filter)
qed

subsection \<open>Changes through one header leave a separate header alone\<close>

lemma header_ok_SomeD:
  assumes "header_ok h (Some a)" and "(k, s) \<in> set (hmaps h a)"
  shows "slice_ok h s"
  using assms by (auto simp: header_ok_def list_all_iff)

lemma header_arrays_allocated:
  assumes "header_ok h x" and "b \<in> set (header_arrays h x)"
  shows "b < array_count h"
proof (cases x)
  case None
  then show ?thesis using assms(2) by (simp add: header_arrays_def)
next
  case (Some a)
  then obtain k off n c where "(k, Slice b off n c) \<in> set (hmaps h a)"
    using assms(2) by (auto simp: in_header_arrays)
  then have "slice_ok h (Slice b off n c)"
    using assms(1) Some header_ok_SomeD by blast
  then show ?thesis by simp
qed

lemma slice_elems_agree:
  assumes "\<And>b. slice_array s = Some b \<Longrightarrow> arrays h' b = arrays h b"
  shows "slice_elems h' s = slice_elems h s"
  using assms by (cases s) auto

lemma frame_preserves_other:
  assumes sep: "separate h x y" and fr: "frame h h' x"
  shows "separate h' x y" and "header_values h' y k = header_values h y k"
proof -
  have okx: "header_ok h x" and oky: "header_ok h y" and ne: "x = None \<or> x \<noteq> y"
    and disj: "\<And>b. b \<in> set (header_arrays h x) \<Longrightarrow> b \<notin> set (header_arrays h y)"
    using sep by (auto simp: separate_def list_all_iff)
  show vals: "header_values h' y k = header_values h y k"
  proof (cases y)
    case None
    then show ?thesis by (simp add: header_values_def)
  next
    case (Some a)
    have "Some a \<noteq> x"
    proof
      assume "Some a = x"
      then show False using ne Some by auto
    qed
    then have maps: "hmaps h' a = hmaps h a"
      using fr by (simp add: frame_def)
    have arr: "\<And>b. b \<in> set (header_arrays h y) \<Longrightarrow> arrays h' b = arrays h b"
    proof -
      fix b assume b: "b \<in> set (header_arrays h y)"
      then have "b < array_count h" using oky header_arrays_allocated by blast
      moreover have "b \<notin> set (header_arrays h x)" using disj b by blast
      ultimately show "arrays h' b = arrays h b" using fr by (simp add: frame_def)
    qed
    show ?thesis
    proof (cases "map_of (hmaps h a) k")
      case None
      then show ?thesis using Some maps by (simp add: header_values_def)
    next
      case (Some s)
      then have mem: "(k, s) \<in> set (hmaps h a)" by (rule map_of_SomeD)
      have "slice_elems h' s = slice_elems h s"
      proof (rule slice_elems_agree)
        fix b assume "slice_array s = Some b"
        then obtain off n c where "s = Slice b off n c" by (auto simp: slice_array_Some)
        then have "b \<in> set (header_arrays h y)"
          using mem \<open>y = Some a\<close> by (auto simp: in_header_arrays)
        then show "arrays h' b = arrays h b" by (rule arr)
      qed
      then show ?thesis using Some \<open>y = Some a\<close> maps by (simp add: header_values_def)
    qed
  qed
  have oky': "header_ok h' y"
  proof (cases y)
    case None
    then show ?thesis by (simp add: header_ok_def)
  next
    case (Some a)
    have "Some a \<noteq> x"
    proof
      assume "Some a = x"
      then show False using ne Some by auto
    qed
    then have maps: "hmaps h' a = hmaps h a"
      using fr by (simp add: frame_def)
    have "\<And>e. e \<in> set (hmaps h a) \<Longrightarrow> slice_ok h' (snd e)"
    proof -
      fix e assume e: "e \<in> set (hmaps h a)"
      then have ok: "slice_ok h (snd e)"
        using oky Some by (auto simp: header_ok_def list_all_iff)
      show "slice_ok h' (snd e)"
      proof (cases "snd e")
        case NilSlice
        then show ?thesis by simp
      next
        case (Slice b off n c)
        with ok have "b < array_count h" and "n \<le> c" and "off + c \<le> length (arrays h b)" by auto
        moreover have "length (arrays h' b) = length (arrays h b)"
          using fr \<open>b < array_count h\<close> by (simp add: frame_def)
        moreover have "array_count h \<le> array_count h'" using fr by (simp add: frame_def)
        ultimately show ?thesis using Slice by simp
      qed
    qed
    moreover have "a < map_count h'" and "distinct (map fst (hmaps h a))"
      using oky Some fr by (auto simp: header_ok_def frame_def)
    ultimately show ?thesis
      using Some maps by (simp add: header_ok_def list_all_iff)
  qed
  have arrs_y: "header_arrays h' y = header_arrays h y"
  proof (cases y)
    case None
    then show ?thesis by (simp add: header_arrays_def)
  next
    case (Some a)
    have "Some a \<noteq> x"
    proof
      assume "Some a = x"
      then show False using ne Some by auto
    qed
    then have "hmaps h' a = hmaps h a"
      using fr by (simp add: frame_def)
    then show ?thesis using Some by (simp add: header_arrays_def)
  qed
  have disj': "\<And>b. b \<in> set (header_arrays h' x) \<Longrightarrow> b \<notin> set (header_arrays h' y)"
  proof -
    fix b assume b: "b \<in> set (header_arrays h' x)"
    then consider "b \<in> set (header_arrays h x)" | "array_count h \<le> b"
      using fr by (auto simp: frame_def)
    then show "b \<notin> set (header_arrays h' y)"
    proof cases
      case 1
      then show ?thesis using disj arrs_y by simp
    next
      case 2
      show ?thesis
      proof
        assume "b \<in> set (header_arrays h' y)"
        then have "b < array_count h"
          using arrs_y oky header_arrays_allocated by metis
        then show False using 2 by simp
      qed
    qed
  qed
  have "header_ok h' x" using fr by (simp add: frame_def)
  then show "separate h' x y"
    using oky' ne disj' by (auto simp: separate_def list_all_iff)
qed

lemma slice_ok_mono:
  assumes "slice_ok h s" and "array_count h \<le> array_count h'"
    and "\<And>b. b < array_count h \<Longrightarrow> length (arrays h' b) = length (arrays h b)"
  shows "slice_ok h' s"
  using assms by (cases s) auto

lemma frameI:
  assumes ok: "header_ok h (Some a)"
    and maps: "hmaps h' = (hmaps h)(a := es')"
    and mc: "map_count h' = map_count h"
    and ac: "array_count h \<le> array_count h'"
    and arr: "\<And>b. b < array_count h \<Longrightarrow> b \<notin> set (header_arrays h (Some a)) \<Longrightarrow> arrays h' b = arrays h b"
    and len: "\<And>b. b < array_count h \<Longrightarrow> length (arrays h' b) = length (arrays h b)"
    and keys: "distinct (map fst es')"
    and new: "\<And>k s. (k, s) \<in> set es' \<Longrightarrow> (k, s) \<notin> set (hmaps h a) \<Longrightarrow>
        slice_ok h' s \<and> (\<forall>b. slice_array s = Some b \<longrightarrow> b \<in> set (header_arrays h (Some a)) \<or> array_count h \<le> b)"
  shows "frame h h' (Some a)"
proof -
  have m: "hmaps h' a = es'" using maps by simp
  have each: "\<And>k s. (k, s) \<in> set es' \<Longrightarrow>
        slice_ok h' s \<and> (\<forall>b. slice_array s = Some b \<longrightarrow> b \<in> set (header_arrays h (Some a)) \<or> array_count h \<le> b)"
  proof -
    fix k s assume mem: "(k, s) \<in> set es'"
    show "slice_ok h' s \<and> (\<forall>b. slice_array s = Some b \<longrightarrow> b \<in> set (header_arrays h (Some a)) \<or> array_count h \<le> b)"
    proof (cases "(k, s) \<in> set (hmaps h a)")
      case False
      with mem show ?thesis by (rule new)
    next
      case True
      then have "slice_ok h s" using ok header_ok_SomeD by blast
      then have "slice_ok h' s" using ac len by (rule slice_ok_mono)
      moreover have "\<forall>b. slice_array s = Some b \<longrightarrow> b \<in> set (header_arrays h (Some a))"
        using True by (auto simp: slice_array_Some in_header_arrays)
      ultimately show ?thesis by blast
    qed
  qed
  have ok': "header_ok h' (Some a)"
    using ok mc keys m each by (auto simp: header_ok_def list_all_iff)
  have arrs: "\<forall>b \<in> set (header_arrays h' (Some a)). b \<in> set (header_arrays h (Some a)) \<or> array_count h \<le> b"
  proof
    fix b assume "b \<in> set (header_arrays h' (Some a))"
    then obtain k off n c where "(k, Slice b off n c) \<in> set es'"
      using m by (auto simp: in_header_arrays)
    from each [OF this] show "b \<in> set (header_arrays h (Some a)) \<or> array_count h \<le> b"
      by simp
  qed
  show ?thesis
    unfolding frame_def using mc ac maps arr len ok' arrs by auto
qed

lemma frame_refl: "header_ok h x \<Longrightarrow> frame h h x"
  by (simp add: frame_def)

lemma Header_Set_frame:
  assumes "header_ok h x" and "Header_Set h x k v = Inr h'"
  shows "frame h h' x"
proof (cases x)
  case None
  then show ?thesis using assms(2) by (simp add: Header_Set_def)
next
  case (Some a)
  let ?b = "array_count h"
  let ?s = "Slice ?b 0 1 1"
  have h': "h' = map_assign (h\<lparr>arrays := (arrays h)(?b := [v]), array_count := Suc ?b\<rparr>) a k ?s"
    using assms(2) Some by (simp add: Header_Set_def alloc_array_def)
  have oka: "header_ok h (Some a)" using assms(1) Some by simp
  have "frame h h' (Some a)"
  proof (rule frameI [OF oka, where es' = "entries_assign (hmaps h a) k ?s"])
    show "hmaps h' = (hmaps h)(a := entries_assign (hmaps h a) k ?s)"
      by (simp add: h' map_assign_def)
    show "map_count h' = map_count h" by (simp add: h' map_assign_def)
    show "array_count h \<le> array_count h'" by (simp add: h' map_assign_def)
    show "\<And>b. b < array_count h \<Longrightarrow> b \<notin> set (header_arrays h (Some a)) \<Longrightarrow> arrays h' b = arrays h b"
      by (simp add: h' map_assign_def)
    show "\<And>b. b < array_count h \<Longrightarrow> length (arrays h' b) = length (arrays h b)"
      by (simp add: h' map_assign_def)
    show "distinct (map fst (entries_assign (hmaps h a) k ?s))"
      using oka by (simp add: header_ok_def distinct_entries_assign)
    show "\<And>k' s. (k', s) \<in> set (entries_assign (hmaps h a) k ?s) \<Longrightarrow> (k', s) \<notin> set (hmaps h a) \<Longrightarrow>
        slice_ok h' s \<and> (\<forall>b. slice_array s = Some b \<longrightarrow> b \<in> set (header_arrays h (Some a)) \<or> array_count h \<le> b)"
    proof -
      fix k' s assume "(k', s) \<in> set (entries_assign (hmaps h a) k ?s)" and "(k', s) \<notin> set (hmaps h a)"
      then have "s = ?s" using set_entries_assign [of "hmaps h a" k ?s] by auto
      then show "slice_ok h' s \<and> (\<forall>b. slice_array s = Some b \<longrightarrow> b \<in> set (header_arrays h (Some a)) \<or> array_count h \<le> b)"
        by (simp add: h' map_assign_def)
    qed
  qed
  then show ?thesis using Some by simp
qed

lemma Header_Del_frame:
  assumes "header_ok h x" and "Header_Del h x k = Inr h'"
  shows "frame h h' x"
proof (cases x)
  case None
  then show ?thesis using assms by (simp add: Header_Del_def frame_refl)
next
  case (Some a)
  have h': "h' = map_delete h a k" using assms(2) Some by (simp add: Header_Del_def)
  have oka: "header_ok h (Some a)" using assms(1) Some by simp
  have "frame h h' (Some a)"
  proof (rule frameI [OF oka, where es' = "entries_delete (hmaps h a) k"])
    show "hmaps h' = (hmaps h)(a := entries_delete (hmaps h a) k)" by (simp add: h' map_delete_def)
    show "map_count h' = map_count h" by (simp add: h' map_delete_def)
    show "array_count h \<le> array_count h'" by (simp add: h' map_delete_def)
    show "\<And>b. b < array_count h \<Longrightarrow> b \<notin> set (header_arrays h (Some a)) \<Longrightarrow> arrays h' b = arrays h b"
      by (simp add: h' map_delete_def)
    show "\<And>b. b < array_count h \<Longrightarrow> length (arrays h' b) = length (arrays h b)"
      by (simp add: h' map_delete_def)
    show "distinct (map fst (entries_delete (hmaps h a) k))"
      using oka by (simp add: header_ok_def distinct_entries_delete)
    show "\<And>k' s. (k', s) \<in> set (entries_delete (hmaps h a) k) \<Longrightarrow> (k', s) \<notin> set (hmaps h a) \<Longrightarrow>
        slice_ok h' s \<and> (\<forall>b. slice_array s = Some b \<longrightarrow> b \<in> set (header_arrays h (Some a)) \<or> array_count h \<le> b)"
      by (simp add: entries_delete_def)
  qed
  then show ?thesis using Some by simp
qed

lemma map_index_Slice_mem:
  assumes "map_index h (Some a) k = Slice b off n c"
  shows "(k, Slice b off n c) \<in> set (hmaps h a)"
  using assms by (auto simp: map_index_def split: option.splits dest: map_of_SomeD)

lemma alloc_assign_frame:
  assumes oka: "header_ok h (Some a)"
    and h': "h' = map_assign (h\<lparr>arrays := (arrays h)(array_count h := xs @ replicate (c - length xs) []),
                array_count := Suc (array_count h)\<rparr>) a k (Slice (array_count h) 0 (length xs) (max c (length xs)))"
  shows "frame h h' (Some a)"
proof (rule frameI [OF oka, where es' = "entries_assign (hmaps h a) k (Slice (array_count h) 0 (length xs) (max c (length xs)))"])
  let ?s = "Slice (array_count h) 0 (length xs) (max c (length xs))"
  show "hmaps h' = (hmaps h)(a := entries_assign (hmaps h a) k ?s)"
    by (simp add: h' map_assign_def)
  show "map_count h' = map_count h" by (simp add: h' map_assign_def)
  show "array_count h \<le> array_count h'" by (simp add: h' map_assign_def)
  show "\<And>b. b < array_count h \<Longrightarrow> b \<notin> set (header_arrays h (Some a)) \<Longrightarrow> arrays h' b = arrays h b"
    by (simp add: h' map_assign_def)
  show "\<And>b. b < array_count h \<Longrightarrow> length (arrays h' b) = length (arrays h b)"
    by (simp add: h' map_assign_def)
  show "distinct (map fst (entries_assign (hmaps h a) k ?s))"
    using oka by (simp add: header_ok_def distinct_entries_assign)
  show "\<And>k' s. (k', s) \<in> set (entries_assign (hmaps h a) k ?s) \<Longrightarrow> (k', s) \<notin> set (hmaps h a) \<Longrightarrow>
      slice_ok h' s \<and> (\<forall>b. slice_array s = Some b \<longrightarrow> b \<in> set (header_arrays h (Some a)) \<or> array_count h \<le> b)"
  proof -
    fix k' s assume "(k', s) \<in> set (entries_assign (hmaps h a) k ?s)" and "(k', s) \<notin> set (hmaps h a)"
    then have "s = ?s" using set_entries_assign [of "hmaps h a" k ?s] by auto
    then show "slice_ok h' s \<and> (\<forall>b. slice_array s = Some b \<longrightarrow> b \<in> set (header_arrays h (Some a)) \<or> array_count h \<le> b)"
      by (simp add: h' map_assign_def)
  qed
qed

lemma Header_Write_frame:
  assumes "header_ok h x" and "Header_Write h x k i v = Inr h'"
  shows "frame h h' x"
proof (cases x)
  case None
  then show ?thesis using assms(2) by (simp add: Header_Write_def map_index_def)
next
  case (Some a)
  have oka: "header_ok h (Some a)" using assms(1) Some by simp
  obtain b off n c where idx: "map_index h (Some a) k = Slice b off n c" and "i < n"
    and h': "h' = h\<lparr>arrays := (arrays h)(b := (arrays h b)[off + i := v])\<rparr>"
    using assms(2) Some by (auto simp: Header_Write_def split: slice.splits if_splits)
  have mem: "(k, Slice b off n c) \<in> set (hmaps h a)"
    using idx by (rule map_index_Slice_mem)
  then have inb: "b \<in> set (header_arrays h (Some a))"
    by (auto simp: in_header_arrays)
  have "frame h h' (Some a)"
  proof (rule frameI [OF oka, where es' = "hmaps h a"])
    show "hmaps h' = (hmaps h)(a := hmaps h a)" by (simp add: h')
    show "map_count h' = map_count h" by (simp add: h')
    show "array_count h \<le> array_count h'" by (simp add: h')
    show "\<And>b'. b' < array_count h \<Longrightarrow> b' \<notin> set (header_arrays h (Some a)) \<Longrightarrow> arrays h' b' = arrays h b'"
      using inb by (auto simp: h')
    show "\<And>b'. b' < array_count h \<Longrightarrow> length (arrays h' b') = length (arrays h b')"
      by (simp add: h')
    show "distinct (map fst (hmaps h a))" using oka by (simp add: header_ok_def)
    show "\<And>k' s. (k', s) \<in> set (hmaps h a) \<Longrightarrow> (k', s) \<notin> set (hmaps h a) \<Longrightarrow>
      slice_ok h' s \<and> (\<forall>b. slice_array s = Some b \<longrightarrow> b \<in> set (header_arrays h (Some a)) \<or> array_count h \<le> b)"
      by simp
  qed
  then show ?thesis using Some by simp
qed

lemma Header_Add_frame:
  assumes "header_ok h x" and "Header_Add h x k v = Inr h'"
  shows "frame h h' x"
proof (cases x)
  case None
  then show ?thesis using assms(2) by (simp add: Header_Add_def)
next
  case (Some a)
  have oka: "header_ok h (Some a)" using assms(1) Some by simp
  show ?thesis
  proof (cases "map_index h (Some a) k")
    case NilSlice
    then have "h' = map_assign (h\<lparr>arrays := (arrays h)(array_count h := [v] @ replicate (new_cap h 1 - length [v]) []),
                array_count := Suc (array_count h)\<rparr>) a k (Slice (array_count h) 0 (length [v]) (max (new_cap h 1) (length [v])))"
      using assms(2) Some by (simp add: Header_Add_def alloc_array_def)
    with oka have "frame h h' (Some a)" by (rule alloc_assign_frame)
    then show ?thesis using Some by simp
  next
    case (Slice b off n c)
    then have mem: "(k, Slice b off n c) \<in> set (hmaps h a)"
      by (rule map_index_Slice_mem)
    then have inb: "b \<in> set (header_arrays h (Some a))"
      by (auto simp: in_header_arrays)
    have oks: "slice_ok h (Slice b off n c)"
      using oka mem by (rule header_ok_SomeD)
    show ?thesis
    proof (cases "n < c")
      case False
      let ?xs = "slice_elems h (Slice b off n c) @ [v]"
      have "h' = map_assign (h\<lparr>arrays := (arrays h)(array_count h := ?xs @ replicate (new_cap h (Suc n) - length ?xs) []),
                array_count := Suc (array_count h)\<rparr>) a k (Slice (array_count h) 0 (length ?xs) (max (new_cap h (Suc n)) (length ?xs)))"
        using assms(2) Some Slice False by (simp add: Header_Add_def alloc_array_def)
      with oka have "frame h h' (Some a)" by (rule alloc_assign_frame)
      then show ?thesis using Some by simp
    next
      case True
      let ?s = "Slice b off (Suc n) c"
      have h': "h' = map_assign (h\<lparr>arrays := (arrays h)(b := (arrays h b)[off + n := v])\<rparr>) a k ?s"
        using assms(2) Some Slice True by (simp add: Header_Add_def)
      have "frame h h' (Some a)"
      proof (rule frameI [OF oka, where es' = "entries_assign (hmaps h a) k ?s"])
        show "hmaps h' = (hmaps h)(a := entries_assign (hmaps h a) k ?s)"
          by (simp add: h' map_assign_def)
        show "map_count h' = map_count h" by (simp add: h' map_assign_def)
        show "array_count h \<le> array_count h'" by (simp add: h' map_assign_def)
        show "\<And>b'. b' < array_count h \<Longrightarrow> b' \<notin> set (header_arrays h (Some a)) \<Longrightarrow> arrays h' b' = arrays h b'"
          using inb by (auto simp: h' map_assign_def)
        show "\<And>b'. b' < array_count h \<Longrightarrow> length (arrays h' b') = length (arrays h b')"
          by (simp add: h' map_assign_def)
        show "distinct (map fst (entries_assign (hmaps h a) k ?s))"
          using oka by (simp add: header_ok_def distinct_entries_assign)
        show "\<And>k' s. (k', s) \<in> set (entries_assign (hmaps h a) k ?s) \<Longrightarrow> (k', s) \<notin> set (hmaps h a) \<Longrightarrow>
            slice_ok h' s \<and> (\<forall>b. slice_array s = Some b \<longrightarrow> b \<in> set (header_arrays h (Some a)) \<or> array_count h \<le> b)"
        proof -
          fix k' s assume "(k', s) \<in> set (entries_assign (hmaps h a) k ?s)" and "(k', s) \<notin> set (hmaps h a)"
          then have "s = ?s" using set_entries_assign [of "hmaps h a" k ?s] by auto
          then show "slice_ok h' s \<and> (\<forall>b. slice_array s = Some b \<longrightarrow> b \<in> set (header_arrays h (Some a)) \<or> array_count h \<le> b)"
            using oks True inb by (simp add: h' map_assign_def)
        qed
      qed
      then show ?thesis using Some by simp
    qed
  qed
qed

lemma apply_header_op_frame:
  assumes "header_ok h x" and "apply_header_op h x opn = Inr h'"
  shows "frame h h' x"
  using assms
  by (cases opn) (auto intro: Header_Set_frame Header_Add_frame Header_Del_frame Header_Write_frame)

lemma apply_header_ops_preserve_other:
  assumes "separate h x y" and "apply_header_ops h x ops = Inr h'"
  shows "separate h' x y \<and> (\<forall>k. header_values h' y k = header_values h y k)"
  using assms
proof (induction ops arbitrary: h)
  case Nil
  then show ?case by simp
next
  case (Cons opn ops)
  from Cons.prems(2) obtain h1 where s1: "apply_header_op h x opn = Inr h1"
    and rest: "apply_header_ops h1 x ops = Inr h'"
    by (auto split: sum.splits)
  have "header_ok h x" using Cons.prems(1) by (simp add: separate_def)
  then have fr: "frame h h1 x" using s1 by (rule apply_header_op_frame)
  have sep1: "separate h1 x y" using Cons.prems(1) fr by (rule frame_preserves_other)
  have v1: "\<And>k. header_values h1 y k = header_values h y k"
    using Cons.prems(1) fr by (rule frame_preserves_other)
  from Cons.IH [OF sep1 rest] show ?case using v1 by simp
qed

subsection \<open>The copy loop\<close>

lemma slice_elems_below:
  assumes "slice_ok h s" and "\<And>b. b < array_count h \<Longrightarrow> arrays h' b = arrays h b"
  shows "slice_elems h' s = slice_elems h s"
  using assms by (cases s) auto

lemma frame_trans:
  assumes f1: "frame h h1 x" and f2: "frame h1 h2 x"
  shows "frame h h2 x"
proof -
  have keep: "\<And>b. b < array_count h \<Longrightarrow> b \<notin> set (header_arrays h x) \<Longrightarrow> arrays h2 b = arrays h b"
  proof -
    fix b assume b: "b < array_count h" and nb: "b \<notin> set (header_arrays h x)"
    have "b \<notin> set (header_arrays h1 x)"
      using f1 b nb by (auto simp: frame_def)
    moreover have "b < array_count h1" using f1 b by (simp add: frame_def)
    ultimately have "arrays h2 b = arrays h1 b" using f2 by (simp add: frame_def)
    then show "arrays h2 b = arrays h b" using f1 b nb by (simp add: frame_def)
  qed
  have arrs: "\<forall>b \<in> set (header_arrays h2 x). b \<in> set (header_arrays h x) \<or> array_count h \<le> b"
  proof
    fix b assume "b \<in> set (header_arrays h2 x)"
    then have "b \<in> set (header_arrays h1 x) \<or> array_count h1 \<le> b"
      using f2 by (simp add: frame_def)
    then show "b \<in> set (header_arrays h x) \<or> array_count h \<le> b"
      using f1 by (auto simp: frame_def)
  qed
  have len: "\<And>b. b < array_count h \<Longrightarrow> length (arrays h2 b) = length (arrays h b)"
    using f1 f2 by (simp add: frame_def)
  show ?thesis
    unfolding frame_def
    using f1 f2 keep arrs len by (simp add: frame_def)
qed

text \<open>One round of the copy loop.\<close>

lemma copy_step:
  assumes oka: "header_ok h (Some a2)" and oks: "slice_ok h s"
    and st: "append_to_nil h s = (s', hA)" and h1: "h1 = map_assign hA a2 k s'"
  shows "frame h h1 (Some a2)"
    and "\<And>b. b < array_count h \<Longrightarrow> arrays h1 b = arrays h b"
    and "header_values h1 (Some a2) k' =
           (if k' = k then Some (slice_elems h s) else header_values h (Some a2) k')"
    and "urls h1 = urls h \<and> url_count h1 = url_count h \<and> growth h1 = growth h"
proof -
  let ?xs = "slice_elems h s"
  have below: "\<And>b. b < array_count h \<Longrightarrow> arrays h1 b = arrays h b"
    using st h1 by (auto simp: append_to_nil_def alloc_array_def map_assign_def split: if_splits)
  show "\<And>b. b < array_count h \<Longrightarrow> arrays h1 b = arrays h b" by (rule below)
  show "urls h1 = urls h \<and> url_count h1 = url_count h \<and> growth h1 = growth h"
    using st h1 by (auto simp: append_to_nil_def alloc_array_def map_assign_def split: if_splits)
  have elems': "slice_elems h1 s' = ?xs"
    using st h1 by (auto simp: append_to_nil_def alloc_array_def map_assign_def split: if_splits)
  have maps1: "hmaps h1 a2 = entries_assign (hmaps h a2) k s'"
    using st h1 by (auto simp: append_to_nil_def alloc_array_def map_assign_def split: if_splits)
  show fr: "frame h h1 (Some a2)"
  proof (cases "?xs = []")
    case True
    then have e: "s' = NilSlice" "hA = h" using st by (auto simp: append_to_nil_def)
    show ?thesis
    proof (rule frameI [OF oka, where es' = "entries_assign (hmaps h a2) k NilSlice"])
      show "hmaps h1 = (hmaps h)(a2 := entries_assign (hmaps h a2) k NilSlice)"
        by (simp add: h1 e map_assign_def)
      show "map_count h1 = map_count h" by (simp add: h1 e map_assign_def)
      show "array_count h \<le> array_count h1" by (simp add: h1 e map_assign_def)
      show "\<And>b. b < array_count h \<Longrightarrow> b \<notin> set (header_arrays h (Some a2)) \<Longrightarrow> arrays h1 b = arrays h b"
        by (simp add: h1 e map_assign_def)
      show "\<And>b. b < array_count h \<Longrightarrow> length (arrays h1 b) = length (arrays h b)"
        by (simp add: h1 e map_assign_def)
      show "distinct (map fst (entries_assign (hmaps h a2) k NilSlice))"
        using oka by (simp add: header_ok_def distinct_entries_assign)
      show "\<And>k' s. (k', s) \<in> set (entries_assign (hmaps h a2) k NilSlice) \<Longrightarrow> (k', s) \<notin> set (hmaps h a2) \<Longrightarrow>
          slice_ok h1 s \<and> (\<forall>b. slice_array s = Some b \<longrightarrow> b \<in> set (header_arrays h (Some a2)) \<or> array_count h \<le> b)"
      proof -
        fix k' s assume "(k', s) \<in> set (entries_assign (hmaps h a2) k NilSlice)" and "(k', s) \<notin> set (hmaps h a2)"
        then have "s = NilSlice" using set_entries_assign [of "hmaps h a2" k NilSlice] by auto
        then show "slice_ok h1 s \<and> (\<forall>b. slice_array s = Some b \<longrightarrow> b \<in> set (header_arrays h (Some a2)) \<or> array_count h \<le> b)"
          by simp
      qed
    qed
  next
    case False
    then have "h1 = map_assign (h\<lparr>arrays := (arrays h)(array_count h := ?xs @ replicate (new_cap h (length ?xs) - length ?xs) []),
                array_count := Suc (array_count h)\<rparr>) a2 k (Slice (array_count h) 0 (length ?xs) (max (new_cap h (length ?xs)) (length ?xs)))"
      using st h1 by (auto simp: append_to_nil_def alloc_array_def)
    with oka show ?thesis by (rule alloc_assign_frame)
  qed
  show "header_values h1 (Some a2) k' =
           (if k' = k then Some (slice_elems h s) else header_values h (Some a2) k')"
  proof (cases "k' = k")
    case True
    then show ?thesis
      by (simp add: header_values_def maps1 map_of_entries_assign elems')
  next
    case False
    show ?thesis
    proof (cases "map_of (hmaps h a2) k'")
      case None
      then show ?thesis using False
        by (simp add: header_values_def maps1 map_of_entries_assign)
    next
      case (Some t)
      then have "(k', t) \<in> set (hmaps h a2)" by (rule map_of_SomeD)
      then have "slice_ok h t" using oka header_ok_SomeD by blast
      then have "slice_elems h1 t = slice_elems h t"
        using below by (rule slice_elems_below)
      then show ?thesis using False Some
        by (simp add: header_values_def maps1 map_of_entries_assign)
    qed
  qed
qed

lemma copy_entries_props:
  assumes "header_ok h (Some a2)"
    and "list_all (\<lambda>e. slice_ok h (snd e)) es"
    and "distinct (map fst es)"
  shows "frame h (copy_entries h a2 es) (Some a2)
    \<and> (\<forall>b. b < array_count h \<longrightarrow> arrays (copy_entries h a2 es) b = arrays h b)
    \<and> (\<forall>k. header_values (copy_entries h a2 es) (Some a2) k =
          (case map_of es k of
             Some s \<Rightarrow> Some (slice_elems h s)
           | None \<Rightarrow> header_values h (Some a2) k))
    \<and> urls (copy_entries h a2 es) = urls h \<and> url_count (copy_entries h a2 es) = url_count h
    \<and> growth (copy_entries h a2 es) = growth h"
  using assms
proof (induction es arbitrary: h)
  case Nil
  then show ?case by (simp add: frame_refl)
next
  case (Cons e es)
  obtain k s where e: "e = (k, s)" by (cases e)
  obtain s' hA where st: "append_to_nil h s = (s', hA)" by (cases "append_to_nil h s")
  define h1 where "h1 = map_assign hA a2 k s'"
  have oks: "slice_ok h s" using Cons.prems(2) e by simp
  note step = copy_step [OF Cons.prems(1) oks st h1_def]
  have fr1: "frame h h1 (Some a2)" by (rule step(1))
  have below1: "\<And>b. b < array_count h \<Longrightarrow> arrays h1 b = arrays h b" by (rule step(2))
  have ok1: "header_ok h1 (Some a2)" using fr1 by (simp add: frame_def)
  have ac1: "array_count h \<le> array_count h1" using fr1 by (simp add: frame_def)
  have es1: "list_all (\<lambda>e. slice_ok h1 (snd e)) es"
  proof -
    have "\<And>x. x \<in> set es \<Longrightarrow> slice_ok h1 (snd x)"
    proof -
      fix x assume "x \<in> set es"
      then have "slice_ok h (snd x)" using Cons.prems(2) by (simp add: list_all_iff)
      then show "slice_ok h1 (snd x)"
        using ac1 by (rule slice_ok_mono) (simp add: below1)
    qed
    then show ?thesis by (simp add: list_all_iff)
  qed
  have d1: "distinct (map fst es)" using Cons.prems(3) by simp
  have kn: "map_of es k = None"
    using Cons.prems(3) e by (simp add: map_of_eq_None_iff)
  note IH = Cons.IH [OF ok1 es1 d1]
  note IH1 = IH [THEN conjunct1]
  note IH2 = IH [THEN conjunct2, THEN conjunct1]
  note IH3 = IH [THEN conjunct2, THEN conjunct2, THEN conjunct1]
  note IH4 = IH [THEN conjunct2, THEN conjunct2, THEN conjunct2]
  have unfold: "copy_entries h a2 (e # es) = copy_entries h1 a2 es"
    by (simp add: e st h1_def)
  have elems: "\<And>t. (\<exists>k'. map_of es k' = Some t) \<Longrightarrow> slice_elems h1 t = slice_elems h t"
  proof -
    fix t assume "\<exists>k'. map_of es k' = Some t"
    then obtain k' where "map_of es k' = Some t" by blast
    then have "(k', t) \<in> set es" by (rule map_of_SomeD)
    then have "slice_ok h t" using Cons.prems(2) by (auto simp: list_all_iff)
    then show "slice_elems h1 t = slice_elems h t" using below1 by (rule slice_elems_below)
  qed
  have A: "frame h (copy_entries h1 a2 es) (Some a2)"
    using fr1 IH1 by (rule frame_trans)
  have B: "\<forall>b. b < array_count h \<longrightarrow> arrays (copy_entries h1 a2 es) b = arrays h b"
  proof (intro allI impI)
    fix b assume b: "b < array_count h"
    then have "b < array_count h1" using ac1 by simp
    then have "arrays (copy_entries h1 a2 es) b = arrays h1 b" using IH2 by blast
    then show "arrays (copy_entries h1 a2 es) b = arrays h b" using below1 [OF b] by simp
  qed
  have C: "\<forall>k'. header_values (copy_entries h1 a2 es) (Some a2) k' =
          (case map_of (e # es) k' of
             Some s \<Rightarrow> Some (slice_elems h s)
           | None \<Rightarrow> header_values h (Some a2) k')"
  proof
    fix k'
    have "header_values (copy_entries h1 a2 es) (Some a2) k' =
          (case map_of es k' of
             Some s \<Rightarrow> Some (slice_elems h1 s)
           | None \<Rightarrow> header_values h1 (Some a2) k')"
      using IH3 by blast
    also have "\<dots> = (case map_of (e # es) k' of
             Some s \<Rightarrow> Some (slice_elems h s)
           | None \<Rightarrow> header_values h (Some a2) k')"
    proof (cases "map_of es k'")
      case None
      then show ?thesis
        using step(3) [of k'] e by simp
    next
      case (Some t)
      then have "k' \<noteq> k" using kn by auto
      moreover have "slice_elems h1 t = slice_elems h t"
        using Some by (intro elems) blast
      ultimately show ?thesis using Some e by simp
    qed
    finally show "header_values (copy_entries h1 a2 es) (Some a2) k' =
          (case map_of (e # es) k' of
             Some s \<Rightarrow> Some (slice_elems h s)
           | None \<Rightarrow> header_values h (Some a2) k')" .
  qed
  have D: "urls (copy_entries h1 a2 es) = urls h \<and> url_count (copy_entries h1 a2 es) = url_count h
    \<and> growth (copy_entries h1 a2 es) = growth h"
    using IH4 step(4) by simp
  show ?case
    unfolding unfold by (intro conjI A B C D [THEN conjunct1] D [THEN conjunct2, THEN conjunct1]
        D [THEN conjunct2, THEN conjunct2])
qed

subsection \<open>cloneRequest\<close>

lemma separate_sym:
  assumes "separate h x y" and "x \<noteq> y"
  shows "separate h y x"
  using assms by (auto simp: separate_def list_all_iff)

lemma header_ok_mono:
  assumes ok: "header_ok h x"
    and mc: "map_count h \<le> map_count h'" and ac: "array_count h \<le> array_count h'"
    and maps: "\<And>a. a < map_count h \<Longrightarrow> hmaps h' a = hmaps h a"
    and len: "\<And>b. b < array_count h \<Longrightarrow> length (arrays h' b) = length (arrays h b)"
  shows "header_ok h' x"
proof (cases x)
  case None
  then show ?thesis by (simp add: header_ok_def)
next
  case (Some a)
  then have a: "a < map_count h" and d: "distinct (map fst (hmaps h a))"
    and sl: "\<And>e. e \<in> set (hmaps h a) \<Longrightarrow> slice_ok h (snd e)"
    using ok by (auto simp: header_ok_def list_all_iff)
  have "\<And>e. e \<in> set (hmaps h a) \<Longrightarrow> slice_ok h' (snd e)"
    using sl ac len by (blast intro: slice_ok_mono)
  then show ?thesis
    using Some a d mc maps [OF a] by (simp add: header_ok_def list_all_iff)
qed

lemma header_values_same:
  assumes ok: "header_ok h x"
    and maps: "\<And>a. a < map_count h \<Longrightarrow> hmaps h' a = hmaps h a"
    and arr: "\<And>b. b < array_count h \<Longrightarrow> arrays h' b = arrays h b"
  shows "header_values h' x k = header_values h x k"
proof (cases x)
  case None
  then show ?thesis by (simp add: header_values_def)
next
  case (Some a)
  then have a: "a < map_count h" using ok by (simp add: header_ok_def)
  show ?thesis
  proof (cases "map_of (hmaps h a) k")
    case None
    then show ?thesis using Some maps [OF a] by (simp add: header_values_def)
  next
    case (Some s)
    then have "(k, s) \<in> set (hmaps h a)" by (rule map_of_SomeD)
    then have "slice_ok h s" using ok \<open>x = Some a\<close> header_ok_SomeD by blast
    then have "slice_elems h' s = slice_elems h s" using arr by (rule slice_elems_below)
    then show ?thesis using Some \<open>x = Some a\<close> maps [OF a] by (simp add: header_values_def)
  qed
qed

lemma cloneRequest_props:
  assumes ok: "header_ok h (Header r)"
  shows "\<exists>h2. cloneRequest h (Some r) = Inr (r\<lparr>Header := Some (map_count h)\<rparr>, h2)
    \<and> separate h2 (Some (map_count h)) (Header r)
    \<and> (\<forall>k. header_values h2 (Some (map_count h)) k = header_values h (Header r) k)
    \<and> (\<forall>k. header_values h2 (Header r) k = header_values h (Header r) k)
    \<and> list_all (\<lambda>b. array_count h \<le> b) (header_arrays h2 (Some (map_count h)))
    \<and> urls h2 = urls h \<and> url_count h2 = url_count h \<and> growth h2 = growth h
    \<and> map_count h2 = Suc (map_count h) \<and> array_count h \<le> array_count h2"
proof -
  let ?a2 = "map_count h"
  define h0 where "h0 = h\<lparr>hmaps := (hmaps h)(?a2 := []), map_count := Suc ?a2\<rparr>"
  define es where "es = (case Header r of None \<Rightarrow> [] | Some a \<Rightarrow> hmaps h a)"
  define h2 where "h2 = copy_entries h0 ?a2 es"
  have res: "cloneRequest h (Some r) = Inr (r\<lparr>Header := Some ?a2\<rparr>, h2)"
    by (simp add: cloneRequest_def make_map_def Let_def h0_def es_def h2_def)
  have ok0a: "header_ok h0 (Some ?a2)"
    by (simp add: header_ok_def h0_def)
  have ok0r: "header_ok h0 (Header r)"
    using ok by (rule header_ok_mono) (simp_all add: h0_def)
  have es_ok: "list_all (\<lambda>e. slice_ok h0 (snd e)) es"
    using ok0r ok by (auto simp: es_def header_ok_def h0_def split: option.splits)
  have es_d: "distinct (map fst es)"
    using ok by (auto simp: es_def header_ok_def split: option.splits)
  note P = copy_entries_props [OF ok0a es_ok es_d, folded h2_def]
  note fr = P [THEN conjunct1]
  note below = P [THEN conjunct2, THEN conjunct1]
  note vals = P [THEN conjunct2, THEN conjunct2, THEN conjunct1]
  note rest = P [THEN conjunct2, THEN conjunct2, THEN conjunct2]
  have ne: "Header r \<noteq> Some ?a2"
    using ok by (auto simp: header_ok_def)
  have arrs0: "header_arrays h0 (Some ?a2) = []"
    by (simp add: header_arrays_def h0_def List.map_filter_simps)
  have sep0: "separate h0 (Some ?a2) (Header r)"
    using ok0a ok0r ne by (auto simp: separate_def arrs0)
  have sep2: "separate h2 (Some ?a2) (Header r)"
    using sep0 fr by (rule frame_preserves_other)
  have v_src0: "\<And>k. header_values h2 (Header r) k = header_values h0 (Header r) k"
    using sep0 fr by (rule frame_preserves_other)
  have v0: "\<And>k. header_values h0 (Header r) k = header_values h (Header r) k"
    using ok by (rule header_values_same) (simp_all add: h0_def)
  have v_src: "\<forall>k. header_values h2 (Header r) k = header_values h (Header r) k"
    using v_src0 v0 by simp
  have v_clone: "\<forall>k. header_values h2 (Some ?a2) k = header_values h (Header r) k"
  proof
    fix k
    have e0: "header_values h0 (Some ?a2) k = None"
      by (simp add: header_values_def h0_def)
    have "header_values h2 (Some ?a2) k =
        (case map_of es k of Some s \<Rightarrow> Some (slice_elems h0 s) | None \<Rightarrow> None)"
      using vals e0 by (simp split: option.splits)
    also have "\<dots> = header_values h (Header r) k"
    proof (cases "Header r")
      case None
      then show ?thesis by (simp add: es_def header_values_def)
    next
      case (Some a)
      have "\<And>s. slice_elems h0 s = slice_elems h s"
      proof -
        fix s show "slice_elems h0 s = slice_elems h s" by (cases s) (simp_all add: h0_def)
      qed
      then show ?thesis using Some
        by (cases "map_of (hmaps h a) k") (simp_all add: es_def header_values_def)
    qed
    finally show "header_values h2 (Some ?a2) k = header_values h (Header r) k" .
  qed
  have fresh: "list_all (\<lambda>b. array_count h \<le> b) (header_arrays h2 (Some ?a2))"
  proof -
    have "\<And>b. b \<in> set (header_arrays h2 (Some ?a2)) \<Longrightarrow> array_count h \<le> b"
    proof -
      fix b assume "b \<in> set (header_arrays h2 (Some ?a2))"
      then have "b \<in> set (header_arrays h0 (Some ?a2)) \<or> array_count h0 \<le> b"
        using fr by (simp add: frame_def)
      then show "array_count h \<le> b" unfolding arrs0 by (simp add: h0_def)
    qed
    then show ?thesis by (simp add: list_all_iff)
  qed
  have counts: "map_count h2 = Suc (map_count h) \<and> array_count h \<le> array_count h2"
    using fr by (simp add: frame_def h0_def)
  have others: "urls h2 = urls h \<and> url_count h2 = url_count h \<and> growth h2 = growth h"
    using rest by (simp add: h0_def)
  show ?thesis
    using res sep2 v_clone v_src fresh others counts by blast
qed

subsection \<open>Independence of the clone\<close>

text \<open>
  C8. For every request \<open>r\<close>, \<^verbatim>\<open>cloneRequest\<close> returns a request whose fields are
  those of \<open>r\<close> (the \<open>URL\<close> reference included) except \<open>Header\<close>, which is a map
  allocated by the call. That map holds the same values under the same keys, every
  value in an array allocated by the call, and cloning leaves the source's header as it
  was. Whatever is then done to the clone's header (setting, adding to, deleting or
  overwriting values) leaves the source's header as it was, and whatever is done to the
  source's header leaves the clone's as it was.
\<close>

theorem C8_cloneRequest_headers_independent:
  assumes "header_ok h (Header r)"
  shows "\<exists>r2 h2. cloneRequest h (Some r) = Inr (r2, h2)
    \<and> r2 = r\<lparr>Header := Header r2\<rparr>
    \<and> Header r2 = Some (map_count h) \<and> Header r2 \<noteq> Header r
    \<and> list_all (\<lambda>b. array_count h \<le> b) (header_arrays h2 (Header r2))
    \<and> (\<forall>k. header_values h2 (Header r2) k = header_values h (Header r) k)
    \<and> (\<forall>k. header_values h2 (Header r) k = header_values h (Header r) k)
    \<and> (\<forall>ops h3 k. apply_header_ops h2 (Header r2) ops = Inr h3 \<longrightarrow>
          header_values h3 (Header r) k = header_values h2 (Header r) k)
    \<and> (\<forall>ops h3 k. apply_header_ops h2 (Header r) ops = Inr h3 \<longrightarrow>
          header_values h3 (Header r2) k = header_values h2 (Header r2) k)"
proof -
  let ?a2 = "Some (map_count h)"
  from cloneRequest_props [OF assms] obtain h2 where
    res: "cloneRequest h (Some r) = Inr (r\<lparr>Header := ?a2\<rparr>, h2)"
    and sep: "separate h2 ?a2 (Header r)"
    and vc: "\<forall>k. header_values h2 ?a2 k = header_values h (Header r) k"
    and vs: "\<forall>k. header_values h2 (Header r) k = header_values h (Header r) k"
    and fresh: "list_all (\<lambda>b. array_count h \<le> b) (header_arrays h2 ?a2)"
    by blast
  have ne: "?a2 \<noteq> Header r"
    using assms by (cases "Header r") (auto simp: header_ok_def)
  have sep': "separate h2 (Header r) ?a2"
    using sep ne by (rule separate_sym)
  have m1: "\<forall>ops h3 k. apply_header_ops h2 ?a2 ops = Inr h3 \<longrightarrow>
          header_values h3 (Header r) k = header_values h2 (Header r) k"
    using apply_header_ops_preserve_other [OF sep] by blast
  have m2: "\<forall>ops h3 k. apply_header_ops h2 (Header r) ops = Inr h3 \<longrightarrow>
          header_values h3 ?a2 k = header_values h2 ?a2 k"
    using apply_header_ops_preserve_other [OF sep'] by blast
  show ?thesis
    apply (rule exI [of _ "r\<lparr>Header := ?a2\<rparr>"])
    apply (rule exI [of _ h2])
    using res ne fresh vc vs m1 m2 by simp
qed

lemma demo_ok: "header_ok demo_heap (Header demo_request)"
  by (simp add: header_ok_def demo_heap_def demo_request_def empty_heap_def)

theorem C8_cloneRequest_headers_independent_witness:
  "header_ok demo_heap (Header demo_request)
   \<and> (\<exists>r2 h2. cloneRequest demo_heap (Some demo_request) = Inr (r2, h2)
    \<and> r2 = demo_request\<lparr>Header := Header r2\<rparr>
    \<and> Header r2 = Some (map_count demo_heap) \<and> Header r2 \<noteq> Header demo_request
    \<and> list_all (\<lambda>b. array_count demo_heap \<le> b) (header_arrays h2 (Header r2))
    \<and> (\<forall>k. header_values h2 (Header r2) k = header_values demo_heap (Header demo_request) k)
    \<and> (\<forall>k. header_values h2 (Header demo_request) k = header_values demo_heap (Header demo_request) k)
    \<and> (\<forall>ops h3 k. apply_header_ops h2 (Header r2) ops = Inr h3 \<longrightarrow>
          header_values h3 (Header demo_request) k = header_values h2 (Header demo_request) k)
    \<and> (\<forall>ops h3 k. apply_header_ops h2 (Header demo_request) ops = Inr h3 \<longrightarrow>
          header_values h3 (Header r2) k = header_values h2 (Header r2) k))"
  using C8_cloneRequest_headers_independent [OF demo_ok] demo_ok by blast

text \<open>The model run on the demo store: the clone's header is overwritten, extended
  and cut; the source's header still holds what it held.\<close>

lemma cloneRequest_demo_run:
  "(case cloneRequest demo_heap (Some demo_request) of
      Inr (r2, h2) \<Rightarrow>
        (case apply_header_ops h2 (Header r2) [HWrite ''Accept'' 0 ''x'', HAdd ''Accept'' ''y'', HSet ''Cookie'' ''c'', HDel ''X-Empty''] of
           Inr h3 \<Rightarrow> (header_values h3 (Header r2) ''Accept'', header_values h3 (Header r2) ''X-Empty'',
                       header_values h3 (Header demo_request) ''Accept'', header_values h3 (Header demo_request) ''X-Empty'',
                       header_values h3 (Header demo_request) ''Cookie'')))
   = (Some [''x'', ''y''], None, Some [''text/plain''], Some [], None)"
  by code_simp

section \<open>Theorems about the transports and the request builders\<close>

subsection \<open>Header values after Set and AddCookie\<close>

lemma Header_Set_values:
  assumes ok: "header_ok h (Some a)"
  shows "\<exists>h'. Header_Set h (Some a) k v = Inr h'
     \<and> frame h h' (Some a)
     \<and> (\<forall>k'. header_values h' (Some a) k' = (if k' = k then Some [v] else header_values h (Some a) k'))
     \<and> urls h' = urls h \<and> url_count h' = url_count h"
proof -
  let ?s = "Slice (array_count h) 0 1 1"
  define h' where "h' = map_assign (h\<lparr>arrays := (arrays h)(array_count h := [v]), array_count := Suc (array_count h)\<rparr>) a k ?s"
  have res: "Header_Set h (Some a) k v = Inr h'"
    by (simp add: Header_Set_def alloc_array_def h'_def)
  have fr: "frame h h' (Some a)"
    using ok res by (rule Header_Set_frame)
  have below: "\<And>b. b < array_count h \<Longrightarrow> arrays h' b = arrays h b"
    by (simp add: h'_def map_assign_def)
  have vals: "\<forall>k'. header_values h' (Some a) k' = (if k' = k then Some [v] else header_values h (Some a) k')"
  proof
    fix k'
    show "header_values h' (Some a) k' = (if k' = k then Some [v] else header_values h (Some a) k')"
    proof (cases "k' = k")
      case True
      then show ?thesis
        by (simp add: header_values_def h'_def map_assign_def map_of_entries_assign)
    next
      case False
      show ?thesis
      proof (cases "map_of (hmaps h a) k'")
        case None
        then show ?thesis using False
          by (simp add: header_values_def h'_def map_assign_def map_of_entries_assign)
      next
        case (Some s)
        then have "(k', s) \<in> set (hmaps h a)" by (rule map_of_SomeD)
        then have "slice_ok h s" using ok header_ok_SomeD by blast
        then have "slice_elems h' s = slice_elems h s" using below by (rule slice_elems_below)
        moreover have "map_of (hmaps h' a) k' = Some s"
          using False Some by (simp add: h'_def map_assign_def map_of_entries_assign)
        ultimately show ?thesis using False Some by (simp add: header_values_def)
      qed
    qed
  qed
  have "urls h' = urls h \<and> url_count h' = url_count h"
    by (simp add: h'_def map_assign_def)
  then show ?thesis using res fr vals by blast
qed

lemma Header_Get_values:
  "Header_Get h hdr k = (case header_values h hdr k of Some (v # vs) \<Rightarrow> v | _ \<Rightarrow> [])"
proof (cases hdr)
  case None
  then show ?thesis by (simp add: Header_Get_def map_index_def header_values_def)
next
  case (Some a)
  then show ?thesis
    by (cases "map_of (hmaps h a) k")
       (simp_all add: Header_Get_def map_index_def header_values_def split: list.splits)
qed

lemma Join_Cons: "Join (x # xs) sep = (if xs = [] then x else x @ sep @ Join xs sep)"
  by (cases xs) simp_all

lemma cookie_pair_nonempty: "cookie_pair lib c \<noteq> []"
  by (simp add: cookie_pair_def)

lemma cookie_line_single:
  "cookie_line lib cur [c] = (if cur \<noteq> [] then cur @ ''; '' @ cookie_pair lib c else cookie_pair lib c)"
  by (simp add: cookie_line_def)

lemma cookie_line_single_nonempty: "cookie_line lib cur [c] \<noteq> []"
  by (simp add: cookie_line_single cookie_pair_nonempty)

lemma cookie_line_Cons:
  "cookie_line lib (cookie_line lib cur [c]) cs = cookie_line lib cur (c # cs)"
proof (cases "cur = []")
  case True
  then show ?thesis
    by (simp add: cookie_line_def cookie_pair_nonempty Join_Cons)
next
  case False
  then show ?thesis
    by (simp add: cookie_line_def Join_Cons)
qed

lemma AddCookie_values:
  assumes ok: "header_ok h (Some a)" and hr: "Header r = Some a"
  shows "\<exists>h'. AddCookie lib h r c = Inr h'
     \<and> frame h h' (Some a)
     \<and> (\<forall>k. header_values h' (Some a) k =
           (if k = ''Cookie'' then Some [cookie_line lib (Header_Get h (Some a) ''Cookie'') [c]]
            else header_values h (Some a) k))
     \<and> urls h' = urls h \<and> url_count h' = url_count h"
proof -
  let ?line = "cookie_line lib (Header_Get h (Some a) ''Cookie'') [c]"
  have eq: "AddCookie lib h r c = Header_Set h (Some a) ''Cookie'' ?line"
    by (simp add: AddCookie_def Let_def hr cookie_line_single cookie_pair_def)
  from Header_Set_values [OF ok, of "''Cookie''" ?line] show ?thesis
    unfolding eq by blast
qed

lemma add_all_cookies_values:
  assumes "header_ok h (Some a)" and "Header r = Some a"
  shows "\<exists>h'. add_all_cookies lib h r cs = Inr h'
     \<and> frame h h' (Some a)
     \<and> (\<forall>k. header_values h' (Some a) k =
           (if k = ''Cookie'' \<and> cs \<noteq> []
            then Some [cookie_line lib (Header_Get h (Some a) ''Cookie'') cs]
            else header_values h (Some a) k))
     \<and> urls h' = urls h \<and> url_count h' = url_count h"
  using assms
proof (induction cs arbitrary: h)
  case Nil
  then show ?case by (simp add: frame_refl)
next
  case (Cons c cs)
  from AddCookie_values [OF Cons.prems, of lib c] obtain h1 where
    s1: "AddCookie lib h r c = Inr h1" and fr1: "frame h h1 (Some a)"
    and v1: "\<forall>k. header_values h1 (Some a) k =
           (if k = ''Cookie'' then Some [cookie_line lib (Header_Get h (Some a) ''Cookie'') [c]]
            else header_values h (Some a) k)"
    and u1: "urls h1 = urls h \<and> url_count h1 = url_count h"
    by blast
  have ok1: "header_ok h1 (Some a)" using fr1 by (simp add: frame_def)
  have get1: "Header_Get h1 (Some a) ''Cookie'' = cookie_line lib (Header_Get h (Some a) ''Cookie'') [c]"
    using v1 by (simp add: Header_Get_values [of h1])
  from Cons.IH [OF ok1 Cons.prems(2)] obtain h' where
    s2: "add_all_cookies lib h1 r cs = Inr h'" and fr2: "frame h1 h' (Some a)"
    and v2: "\<forall>k. header_values h' (Some a) k =
           (if k = ''Cookie'' \<and> cs \<noteq> []
            then Some [cookie_line lib (Header_Get h1 (Some a) ''Cookie'') cs]
            else header_values h1 (Some a) k)"
    and u2: "urls h' = urls h1 \<and> url_count h' = url_count h1"
    by blast
  have res: "add_all_cookies lib h r (c # cs) = Inr h'"
    by (simp add: s1 s2)
  have fr: "frame h h' (Some a)" using fr1 fr2 by (rule frame_trans)
  have vals: "\<forall>k. header_values h' (Some a) k =
           (if k = ''Cookie'' \<and> c # cs \<noteq> []
            then Some [cookie_line lib (Header_Get h (Some a) ''Cookie'') (c # cs)]
            else header_values h (Some a) k)"
  proof
    fix k
    show "header_values h' (Some a) k =
           (if k = ''Cookie'' \<and> c # cs \<noteq> []
            then Some [cookie_line lib (Header_Get h (Some a) ''Cookie'') (c # cs)]
            else header_values h (Some a) k)"
    proof (cases "cs = []")
      case True
      then show ?thesis using v1 v2 by simp
    next
      case False
      then show ?thesis using v1 v2 by (simp add: get1 cookie_line_Cons)
    qed
  qed
  show ?case using res fr vals u1 u2 by simp
qed

lemma add_session_cookies_filter:
  "add_session_cookies lib h r cs = add_all_cookies lib h r (filter (\<lambda>c. Value c \<noteq> []) cs)"
proof (induction cs arbitrary: h)
  case Nil
  show ?case by simp
next
  case (Cons c cs)
  show ?case
    by (cases "AddCookie lib h r c") (simp_all add: Cons.IH)
qed

subsection \<open>CookieAuthTransport\<close>

text \<open>
  With a cached session, \<^verbatim>\<open>CookieAuthTransport.RoundTrip\<close> hands the clone to the
  underlying transport with exactly the cached cookies of non-empty value on its
  \<open>Cookie\<close> line, in their order, after what the line held before; the other headers and
  the source request are as they were.
\<close>

lemma Cookie_RoundTrip_attaches_nonempty_cookies:
  assumes ok: "header_ok h (Header r)" and so: "SessionObject t = Some cs"
  shows "\<exists>req2 h3. Cookie_RoundTrip transport lib json_encode authClient_Do t h (Some r)
        = Inr (t, RTDelegated req2 h3 (transport h3 req2))
    \<and> req2 = r\<lparr>Header := Header req2\<rparr>
    \<and> (\<forall>k. header_values h3 (Header req2) k =
          (if k = ''Cookie'' \<and> filter (\<lambda>c. Value c \<noteq> []) cs \<noteq> []
           then Some [cookie_line lib (Header_Get h (Header r) ''Cookie'') (filter (\<lambda>c. Value c \<noteq> []) cs)]
           else header_values h (Header r) k))
    \<and> (\<forall>k. header_values h3 (Header r) k = header_values h (Header r) k)"
proof -
  let ?a2 = "map_count h"
  let ?req2 = "r\<lparr>Header := Some ?a2\<rparr>"
  let ?cs = "filter (\<lambda>c. Value c \<noteq> []) cs"
  from cloneRequest_props [OF ok] obtain h2 where
    res: "cloneRequest h (Some r) = Inr (?req2, h2)"
    and sep: "separate h2 (Some ?a2) (Header r)"
    and vc: "\<forall>k. header_values h2 (Some ?a2) k = header_values h (Header r) k"
    and vs: "\<forall>k. header_values h2 (Header r) k = header_values h (Header r) k"
    by blast
  have ok2: "header_ok h2 (Some ?a2)" using sep by (simp add: separate_def)
  have hr2: "Header ?req2 = Some ?a2" by simp
  from add_all_cookies_values [OF ok2 hr2, of lib ?cs] obtain h3 where
    s3: "add_all_cookies lib h2 ?req2 ?cs = Inr h3" and fr: "frame h2 h3 (Some ?a2)"
    and v3: "\<forall>k. header_values h3 (Some ?a2) k =
           (if k = ''Cookie'' \<and> ?cs \<noteq> []
            then Some [cookie_line lib (Header_Get h2 (Some ?a2) ''Cookie'') ?cs]
            else header_values h2 (Some ?a2) k)"
    by blast
  have get: "Header_Get h2 (Some ?a2) ''Cookie'' = Header_Get h (Header r) ''Cookie''"
    using vc by (simp add: Header_Get_values)
  have run: "Cookie_RoundTrip transport lib json_encode authClient_Do t h (Some r)
        = Inr (t, RTDelegated ?req2 h3 (transport h3 ?req2))"
    using s3 by (simp add: Cookie_RoundTrip_def so res add_session_cookies_filter)
  have src: "\<forall>k. header_values h3 (Header r) k = header_values h (Header r) k"
    using frame_preserves_other(2) [OF sep fr] vs by simp
  have vals: "\<forall>k. header_values h3 (Header ?req2) k =
          (if k = ''Cookie'' \<and> ?cs \<noteq> []
           then Some [cookie_line lib (Header_Get h (Header r) ''Cookie'') ?cs]
           else header_values h (Header r) k)"
    using v3 vc by (simp add: get)
  show ?thesis
    apply (rule exI [of _ ?req2])
    apply (rule exI [of _ h3])
    using run vals src by simp
qed


lemma cloneRequest_Some: "\<exists>req2 h2. cloneRequest h (Some r) = Inr (req2, h2)"
  by (simp add: cloneRequest_def Let_def split: prod.splits)

lemma copy_entries_urls: "urls (copy_entries h a es) = urls h"
proof (induction es arbitrary: h)
  case Nil
  show ?case by simp
next
  case (Cons e es)
  obtain k s where e: "e = (k, s)" by (cases e)
  show ?case
    by (simp add: e Cons.IH append_to_nil_def alloc_array_def map_assign_def split: prod.splits)
qed

lemma cloneRequest_Some_urls:
  "\<exists>h2. cloneRequest h (Some r) = Inr (r\<lparr>Header := Some (map_count h)\<rparr>, h2) \<and> urls h2 = urls h"
  by (simp add: cloneRequest_def Let_def make_map_def copy_entries_urls)

text \<open>Building the login request allocates a URL, a header map and an array; what was
  allocated before is as it was.\<close>

lemma buildAuthRequest_keeps:
  assumes "buildAuthRequest lib je t h = Inr (h1, x)"
  shows "map_count h \<le> map_count h1 \<and> array_count h \<le> array_count h1
    \<and> (\<forall>a. a < map_count h \<longrightarrow> hmaps h1 a = hmaps h a)
    \<and> (\<forall>b. b < array_count h \<longrightarrow> arrays h1 b = arrays h b)"
  using assms
  by (auto simp: buildAuthRequest_def NewRequestWithContext_def alloc_url_def make_map_def
      Header_Set_def alloc_array_def map_assign_def Let_def
      split: sum.splits prod.splits if_splits)

lemma buildAuthRequest_header:
  assumes ok: "header_ok h (Header r)"
    and b: "buildAuthRequest lib je t h = Inr (h1, x)"
  shows "header_ok h1 (Header r)" and "header_values h1 (Header r) k = header_values h (Header r) k"
proof -
  note K = buildAuthRequest_keeps [OF b]
  show "header_ok h1 (Header r)"
    using ok by (rule header_ok_mono) (simp_all add: K)
  show "header_values h1 (Header r) k = header_values h (Header r) k"
    using ok by (rule header_values_same) (simp_all add: K)
qed

lemma Cookie_RoundTrip_login_answered:
  assumes ok: "header_ok h (Header r)" and none: "SessionObject t = None"
    and b: "buildAuthRequest lib je t h = Inr (h1, Inr areq)"
    and d: "authClient_Do h1 areq = Inr resp"
  shows "\<exists>req2 h3. Cookie_RoundTrip transport lib je authClient_Do t h (Some r)
        = Inr (t\<lparr>SessionObject := Some (AuthCookies resp)\<rparr>, RTDelegated req2 h3 (transport h3 req2))
    \<and> req2 = r\<lparr>Header := Header req2\<rparr>
    \<and> (\<forall>k. header_values h3 (Header req2) k =
          (if k = ''Cookie'' \<and> filter (\<lambda>c. Value c \<noteq> []) (AuthCookies resp) \<noteq> []
           then Some [cookie_line lib (Header_Get h (Header r) ''Cookie'')
                        (filter (\<lambda>c. Value c \<noteq> []) (AuthCookies resp))]
           else header_values h (Header r) k))
    \<and> (\<forall>k. header_values h3 (Header r) k = header_values h (Header r) k)"
proof -
  let ?t1 = "t\<lparr>SessionObject := Some (AuthCookies resp)\<rparr>"
  have ok1: "header_ok h1 (Header r)"
    using ok b by (rule buildAuthRequest_header)
  have v1: "\<And>k. header_values h1 (Header r) k = header_values h (Header r) k"
    using ok b by (rule buildAuthRequest_header)
  have g1: "Header_Get h1 (Header r) ''Cookie'' = Header_Get h (Header r) ''Cookie''"
    by (simp add: Header_Get_values v1)
  have s1: "SessionObject ?t1 = Some (AuthCookies resp)" by simp
  have same: "Cookie_RoundTrip transport lib je authClient_Do t h (Some r)
      = Cookie_RoundTrip transport lib je authClient_Do ?t1 h1 (Some r)"
    by (simp add: Cookie_RoundTrip_def setSessionObject_def none b d)
  from Cookie_RoundTrip_attaches_nonempty_cookies [OF ok1 s1, of transport lib je authClient_Do]
  show ?thesis
    unfolding same v1 g1 by simp
qed

lemma Cookie_RoundTrip_cached_empty:
  assumes ok: "header_ok h (Header r)" and so: "SessionObject t = Some []"
  shows "\<exists>req2 h2. Cookie_RoundTrip transport lib je authClient_Do t h (Some r)
        = Inr (t, RTDelegated req2 h2 (transport h2 req2))
    \<and> req2 = r\<lparr>Header := Header req2\<rparr>
    \<and> (\<forall>k. header_values h2 (Header req2) k = header_values h (Header r) k)
    \<and> (\<forall>k. header_values h2 (Header r) k = header_values h (Header r) k)"
  using Cookie_RoundTrip_attaches_nonempty_cookies [OF ok so, of transport lib je authClient_Do]
  by simp

text \<open>
  C6, amended. \<^verbatim>\<open>CookieAuthTransport.RoundTrip\<close> returns an error of its own exactly
  when no session is cached and the login exchange returns an error, that is when the
  login request cannot be built or the HTTP call of the login fails. A login whose
  response carries no cookie is not an error: the empty list is cached as the session,
  and the request handed to the underlying transport is a clone of the original with
  no cookie added, so every header of it, \<open>Cookie\<close> included, holds what the original
  holds. A later round trip finds the empty session cached: whatever the login call
  would answer, it hands the underlying transport the clone of its request, again with
  no cookie added, and leaves the session as it is.
\<close>

theorem C6_login_errors_amended:
  "((\<exists>t1 e. Cookie_RoundTrip transport lib json_encode authClient_Do t h (Some r) = Inr (t1, RTError e))
      \<longleftrightarrow> (SessionObject t = None
           \<and> (\<exists>t1 h1 err. setSessionObject lib json_encode authClient_Do t h = Inr (t1, h1, Some err))))
   \<and> ((\<exists>t1 h1 err. setSessionObject lib json_encode authClient_Do t h = Inr (t1, h1, Some err))
      \<longleftrightarrow> ((\<exists>h1 err. buildAuthRequest lib json_encode t h = Inr (h1, Inl err))
           \<or> (\<exists>h1 req err. buildAuthRequest lib json_encode t h = Inr (h1, Inr req)
                 \<and> authClient_Do h1 req = Inl err)))
   \<and> (header_ok h (Header r) \<and> SessionObject t = None
        \<and> (\<exists>h1 areq resp. buildAuthRequest lib json_encode t h = Inr (h1, Inr areq)
               \<and> authClient_Do h1 areq = Inr resp \<and> AuthCookies resp = []) \<longrightarrow>
        (\<exists>req2 h2. Cookie_RoundTrip transport lib json_encode authClient_Do t h (Some r)
               = Inr (t\<lparr>SessionObject := Some []\<rparr>, RTDelegated req2 h2 (transport h2 req2))
           \<and> req2 = r\<lparr>Header := Header req2\<rparr>
           \<and> (\<forall>k. header_values h2 (Header req2) k = header_values h (Header r) k)))
   \<and> (header_ok h' (Header r') \<longrightarrow>
        (\<exists>req2 h2. Cookie_RoundTrip transport lib json_encode later_Do
                 (t\<lparr>SessionObject := Some []\<rparr>) h' (Some r')
               = Inr (t\<lparr>SessionObject := Some []\<rparr>, RTDelegated req2 h2 (transport h2 req2))
           \<and> req2 = r'\<lparr>Header := Header req2\<rparr>
           \<and> (\<forall>k. header_values h2 (Header req2) k = header_values h' (Header r') k)))"
proof (intro conjI)
  show "(\<exists>t1 e. Cookie_RoundTrip transport lib json_encode authClient_Do t h (Some r) = Inr (t1, RTError e))
      \<longleftrightarrow> (SessionObject t = None
           \<and> (\<exists>t1 h1 err. setSessionObject lib json_encode authClient_Do t h = Inr (t1, h1, Some err)))"
  proof (cases "SessionObject t")
    case (Some cs)
    obtain req2 h2 where c: "cloneRequest h (Some r) = Inr (req2, h2)"
      using cloneRequest_Some by blast
    show ?thesis
      by (cases "add_session_cookies lib h2 req2 cs")
         (simp_all add: Cookie_RoundTrip_def Some c)
  next
    case None
    show ?thesis
    proof (cases "setSessionObject lib json_encode authClient_Do t h")
      case (Inl p)
      then show ?thesis by (simp add: Cookie_RoundTrip_def None)
    next
      case (Inr x)
      obtain t1 h1 eo where x: "x = (t1, h1, eo)" by (cases x)
      show ?thesis
      proof (cases eo)
        case (Some err)
        then show ?thesis by (simp add: Cookie_RoundTrip_def None Inr x)
      next
        case NoneE: None
        obtain req2 h2 where c: "cloneRequest h1 (Some r) = Inr (req2, h2)"
          using cloneRequest_Some by blast
        show ?thesis
          by (cases "add_session_cookies lib h2 req2 (case SessionObject t1 of None \<Rightarrow> [] | Some cookies \<Rightarrow> cookies)")
             (simp_all add: Cookie_RoundTrip_def None Inr x NoneE c)
      qed
    qed
  qed
next
  show "(\<exists>t1 h1 err. setSessionObject lib json_encode authClient_Do t h = Inr (t1, h1, Some err))
      \<longleftrightarrow> ((\<exists>h1 err. buildAuthRequest lib json_encode t h = Inr (h1, Inl err))
           \<or> (\<exists>h1 req err. buildAuthRequest lib json_encode t h = Inr (h1, Inr req)
                 \<and> authClient_Do h1 req = Inl err))"
  proof (cases "buildAuthRequest lib json_encode t h")
    case (Inl p)
    then show ?thesis by (simp add: setSessionObject_def)
  next
    case (Inr x)
    obtain h1 y where x: "x = (h1, y)" by (cases x)
    show ?thesis
    proof (cases y)
      case (Inl err)
      then show ?thesis by (simp add: setSessionObject_def Inr x)
    next
      case InrR: (Inr req)
      show ?thesis
        by (cases "authClient_Do h1 req") (simp_all add: setSessionObject_def Inr x InrR)
    qed
  qed
next
  show "header_ok h (Header r) \<and> SessionObject t = None
        \<and> (\<exists>h1 areq resp. buildAuthRequest lib json_encode t h = Inr (h1, Inr areq)
               \<and> authClient_Do h1 areq = Inr resp \<and> AuthCookies resp = []) \<longrightarrow>
        (\<exists>req2 h2. Cookie_RoundTrip transport lib json_encode authClient_Do t h (Some r)
               = Inr (t\<lparr>SessionObject := Some []\<rparr>, RTDelegated req2 h2 (transport h2 req2))
           \<and> req2 = r\<lparr>Header := Header req2\<rparr>
           \<and> (\<forall>k. header_values h2 (Header req2) k = header_values h (Header r) k))"
  proof
    assume a: "header_ok h (Header r) \<and> SessionObject t = None
        \<and> (\<exists>h1 areq resp. buildAuthRequest lib json_encode t h = Inr (h1, Inr areq)
               \<and> authClient_Do h1 areq = Inr resp \<and> AuthCookies resp = [])"
    then obtain h1 areq resp where ok: "header_ok h (Header r)" and none: "SessionObject t = None"
      and b: "buildAuthRequest lib json_encode t h = Inr (h1, Inr areq)"
      and d: "authClient_Do h1 areq = Inr resp" and e: "AuthCookies resp = []"
      by blast
    from Cookie_RoundTrip_login_answered
      [where authClient_Do = authClient_Do and transport = transport, OF ok none b d]
    show "\<exists>req2 h2. Cookie_RoundTrip transport lib json_encode authClient_Do t h (Some r)
               = Inr (t\<lparr>SessionObject := Some []\<rparr>, RTDelegated req2 h2 (transport h2 req2))
           \<and> req2 = r\<lparr>Header := Header req2\<rparr>
           \<and> (\<forall>k. header_values h2 (Header req2) k = header_values h (Header r) k)"
      unfolding e by simp blast
  qed
next
  show "header_ok h' (Header r') \<longrightarrow>
        (\<exists>req2 h2. Cookie_RoundTrip transport lib json_encode later_Do
                 (t\<lparr>SessionObject := Some []\<rparr>) h' (Some r')
               = Inr (t\<lparr>SessionObject := Some []\<rparr>, RTDelegated req2 h2 (transport h2 req2))
           \<and> req2 = r'\<lparr>Header := Header req2\<rparr>
           \<and> (\<forall>k. header_values h2 (Header req2) k = header_values h' (Header r') k))"
  proof
    assume ok: "header_ok h' (Header r')"
    have so: "SessionObject (t\<lparr>SessionObject := Some []\<rparr>) = Some []" by simp
    from Cookie_RoundTrip_cached_empty [OF ok so, of transport lib json_encode later_Do]
    show "\<exists>req2 h2. Cookie_RoundTrip transport lib json_encode later_Do
                 (t\<lparr>SessionObject := Some []\<rparr>) h' (Some r')
               = Inr (t\<lparr>SessionObject := Some []\<rparr>, RTDelegated req2 h2 (transport h2 req2))
           \<and> req2 = r'\<lparr>Header := Header req2\<rparr>
           \<and> (\<forall>k. header_values h2 (Header req2) k = header_values h' (Header r') k)"
      by blast
  qed
qed

lemma is_auth_request:
  assumes "(case x of Inr (h1, Inr areq) \<Rightarrow> True | _ \<Rightarrow> False)"
  shows "\<exists>h1 areq. x = Inr (h1, Inr areq)"
proof (cases x)
  case (Inl p)
  then show ?thesis using assms by simp
next
  case (Inr y)
  obtain h1 z where y: "y = (h1, z)" by (cases y)
  show ?thesis using assms Inr y by (cases z) simp_all
qed

lemma is_auth_request_error:
  assumes "(case x of Inr (h1, Inl e) \<Rightarrow> e = berr | _ \<Rightarrow> False)"
  shows "\<exists>h1. x = Inr (h1, Inl berr)"
proof (cases x)
  case (Inl p)
  then show ?thesis using assms by simp
next
  case (Inr y)
  obtain h1 z where y: "y = (h1, z)" by (cases y)
  show ?thesis using assms Inr y by (cases z) simp_all
qed

lemma demo_buildAuthRequest:
  "\<exists>h1 areq. buildAuthRequest demo_lib demo_json_encode demo_cookie_transport demo_heap = Inr (h1, Inr areq)"
proof (rule is_auth_request)
  show "case buildAuthRequest demo_lib demo_json_encode demo_cookie_transport demo_heap of
      Inr (h1, Inr areq) \<Rightarrow> True | _ \<Rightarrow> False"
    by code_simp
qed

lemma demo_buildAuthRequest_fails:
  "\<exists>h1. buildAuthRequest demo_lib demo_json_encode (demo_cookie_transport\<lparr>AuthURL := '':''\<rparr>) demo_heap
      = Inr (h1, Inl (FailedToCreateRequest (URLError MissingProtocolScheme)))"
proof (rule is_auth_request_error)
  show "case buildAuthRequest demo_lib demo_json_encode (demo_cookie_transport\<lparr>AuthURL := '':''\<rparr>) demo_heap of
      Inr (h1, Inl e) \<Rightarrow> e = FailedToCreateRequest (URLError MissingProtocolScheme) | _ \<Rightarrow> False"
    by code_simp
qed

text \<open>
  C6, counterexample. The login answers without any cookie. The round trip returns no
  error: it caches the empty session and hands the request, without a \<open>Cookie\<close> header,
  to the underlying transport.
\<close>

theorem C6_counterexample_login_without_cookies:
  "(case Cookie_RoundTrip demo_transport demo_lib demo_json_encode demo_login_no_cookies
           demo_cookie_transport demo_heap (Some demo_request) of
      Inr (t1, RTDelegated req2 h2 answer) \<Rightarrow>
        SessionObject t1 = Some [] \<and> header_values h2 (Header req2) ''Cookie'' = None
    | _ \<Rightarrow> False)"
  by code_simp

text \<open>
  The amended statement on the demo request, whose headers are \<open>Accept\<close> and \<open>X-Empty\<close>:
  after a login without cookies the clone sent carries these headers and no \<open>Cookie\<close>;
  with the empty session cached, a round trip whose login call would be refused sends
  the clone all the same.
\<close>

theorem C6_login_errors_amended_witness:
  "header_ok demo_heap (Header demo_request) \<and> SessionObject demo_cookie_transport = None
   \<and> (\<exists>req2 h2. Cookie_RoundTrip demo_transport demo_lib demo_json_encode demo_login_no_cookies
           demo_cookie_transport demo_heap (Some demo_request)
         = Inr (demo_cookie_transport\<lparr>SessionObject := Some []\<rparr>, RTDelegated req2 h2 (demo_transport h2 req2))
       \<and> header_values h2 (Header req2) ''Accept'' = Some [''text/plain'']
       \<and> header_values h2 (Header req2) ''Cookie'' = None)
   \<and> (\<exists>req2 h2. Cookie_RoundTrip demo_transport demo_lib demo_json_encode demo_login_refused
           (demo_cookie_transport\<lparr>SessionObject := Some []\<rparr>) demo_heap (Some demo_request)
         = Inr (demo_cookie_transport\<lparr>SessionObject := Some []\<rparr>, RTDelegated req2 h2 (demo_transport h2 req2))
       \<and> header_values h2 (Header req2) ''Accept'' = Some [''text/plain'']
       \<and> header_values h2 (Header req2) ''Cookie'' = None)"
proof -
  have n: "SessionObject demo_cookie_transport = None"
    by (simp add: demo_cookie_transport_def)
  have l: "\<exists>h1 areq resp. buildAuthRequest demo_lib demo_json_encode demo_cookie_transport demo_heap = Inr (h1, Inr areq)
      \<and> demo_login_no_cookies h1 areq = Inr resp \<and> AuthCookies resp = []"
    using demo_buildAuthRequest by (simp add: demo_login_no_cookies_def)
  have a: "header_values demo_heap (Header demo_request) ''Accept'' = Some [''text/plain'']"
    by code_simp
  have c: "header_values demo_heap (Header demo_request) ''Cookie'' = None"
    by code_simp
  note T = C6_login_errors_amended
      [where t = demo_cookie_transport and lib = demo_lib and json_encode = demo_json_encode
         and authClient_Do = demo_login_no_cookies and h = demo_heap and transport = demo_transport
         and r = demo_request and later_Do = demo_login_refused and h' = demo_heap
         and r' = demo_request]
  have first: "\<exists>req2 h2. Cookie_RoundTrip demo_transport demo_lib demo_json_encode demo_login_no_cookies
           demo_cookie_transport demo_heap (Some demo_request)
         = Inr (demo_cookie_transport\<lparr>SessionObject := Some []\<rparr>, RTDelegated req2 h2 (demo_transport h2 req2))
       \<and> header_values h2 (Header req2) ''Accept'' = Some [''text/plain'']
       \<and> header_values h2 (Header req2) ''Cookie'' = None"
    using T [THEN conjunct2, THEN conjunct2, THEN conjunct1] demo_ok n l a c
    by (metis (no_types, lifting))
  have later: "\<exists>req2 h2. Cookie_RoundTrip demo_transport demo_lib demo_json_encode demo_login_refused
           (demo_cookie_transport\<lparr>SessionObject := Some []\<rparr>) demo_heap (Some demo_request)
         = Inr (demo_cookie_transport\<lparr>SessionObject := Some []\<rparr>, RTDelegated req2 h2 (demo_transport h2 req2))
       \<and> header_values h2 (Header req2) ''Accept'' = Some [''text/plain'']
       \<and> header_values h2 (Header req2) ''Cookie'' = None"
    using T [THEN conjunct2, THEN conjunct2, THEN conjunct2] demo_ok a c
    by (metis (no_types, lifting))
  show ?thesis
    using demo_ok n first later by blast
qed

text \<open>
  C7, counterexample. The login is rejected: the server answers 401 without cookies.
  \<^verbatim>\<open>setSessionObject\<close> does not look at the status, so the round trip returns no
  error and hands the request to the underlying transport, with no \<open>Cookie\<close> and no
  \<open>Authorization\<close> header.
\<close>

theorem C7_counterexample_rejected_login:
  "demo_login_rejected demo_heap demo_request = Inr \<lparr>AuthStatusCode = 401, AuthCookies = []\<rparr>
   \<and> (case Cookie_RoundTrip demo_transport demo_lib demo_json_encode demo_login_rejected
             demo_cookie_transport demo_heap (Some demo_request) of
        Inr (t1, res) \<Rightarrow>
          length (transport_calls res) = 1
          \<and> (case res of
                RTError e \<Rightarrow> False
              | RTDelegated req2 h2 answer \<Rightarrow>
                  Method req2 = ''GET'' \<and> ReqHost req2 = ''jira.example''
                  \<and> header_values h2 (Header req2) ''Cookie'' = None
                  \<and> header_values h2 (Header req2) ''Authorization'' = None)
      | _ \<Rightarrow> False)"
  by code_simp

text \<open>
  C7, amended. If signing the token fails in \<^verbatim>\<open>JWTAuthTransport.RoundTrip\<close>, or, with
  no session cached, the login request cannot be built or the HTTP call of the login
  returns an error in \<^verbatim>\<open>CookieAuthTransport.RoundTrip\<close>, the round trip returns the
  error and hands no request to the underlying transport; the cookie transport is left
  without a session. A login call that returns a response is no failure, whatever the
  status and the cookies of the response: the round trip returns no error, caches the
  cookies, and hands the underlying transport one request, the clone of the original
  with the cookies of non-empty value on its \<open>Cookie\<close> line and every other header as in
  the original; with no such cookie the clone has the headers of the original.
\<close>

theorem C7_no_request_sent_on_failure_amended:
  "(URL r = Some ua
      \<and> SignedString ''HS256''
            (token_claims tj now1 now2 (createQueryStringHash sha256 unicode_upper (Method r) (urls h ua)))
            (Secret tj) = Inl err \<longrightarrow>
      (\<exists>res. JWT_RoundTrip transport SignedString sha256 unicode_upper now1 now2 tj h (Some r) = Inr res
         \<and> res = RTError (JWTSigningError err) \<and> transport_calls res = []))
   \<and> (SessionObject tc = None
       \<and> (\<exists>h1. buildAuthRequest lib json_encode tc h = Inr (h1, Inl berr)) \<longrightarrow>
      (\<exists>res. Cookie_RoundTrip transport' lib json_encode authClient_Do tc h req = Inr (tc, res)
         \<and> res = RTError (NoSessionObject (FailedToCreateAuthRequest berr)) \<and> transport_calls res = []))
   \<and> (SessionObject tc = None
       \<and> (\<exists>h1 areq. buildAuthRequest lib json_encode tc h = Inr (h1, Inr areq)
              \<and> authClient_Do h1 areq = Inl derr) \<longrightarrow>
      (\<exists>res. Cookie_RoundTrip transport' lib json_encode authClient_Do tc h req = Inr (tc, res)
         \<and> res = RTError (NoSessionObject (FailedToAuthenticate derr)) \<and> transport_calls res = []))
   \<and> (header_ok h (Header r) \<and> SessionObject tc = None
       \<and> (\<exists>h1 areq. buildAuthRequest lib json_encode tc h = Inr (h1, Inr areq)
              \<and> authClient_Do h1 areq = Inr resp) \<longrightarrow>
      (\<exists>req2 h3 res. Cookie_RoundTrip transport' lib json_encode authClient_Do tc h (Some r)
            = Inr (tc\<lparr>SessionObject := Some (AuthCookies resp)\<rparr>, res)
         \<and> res = RTDelegated req2 h3 (transport' h3 req2)
         \<and> transport_calls res = [(req2, h3)]
         \<and> req2 = r\<lparr>Header := Header req2\<rparr>
         \<and> (\<forall>k. header_values h3 (Header req2) k =
               (if k = ''Cookie'' \<and> filter (\<lambda>c. Value c \<noteq> []) (AuthCookies resp) \<noteq> []
                then Some [cookie_line lib (Header_Get h (Header r) ''Cookie'')
                             (filter (\<lambda>c. Value c \<noteq> []) (AuthCookies resp))]
                else header_values h (Header r) k))))"
proof (intro conjI impI)
  assume a: "URL r = Some ua
      \<and> SignedString ''HS256''
            (token_claims tj now1 now2 (createQueryStringHash sha256 unicode_upper (Method r) (urls h ua)))
            (Secret tj) = Inl err"
  obtain h2 where c: "cloneRequest h (Some r) = Inr (r\<lparr>Header := Some (map_count h)\<rparr>, h2)"
    and u: "urls h2 = urls h"
    using cloneRequest_Some_urls by blast
  have "JWT_RoundTrip transport SignedString sha256 unicode_upper now1 now2 tj h (Some r)
      = Inr (RTError (JWTSigningError err))"
    using a by (simp add: JWT_RoundTrip_def c u Let_def)
  then show "\<exists>res. JWT_RoundTrip transport SignedString sha256 unicode_upper now1 now2 tj h (Some r) = Inr res
         \<and> res = RTError (JWTSigningError err) \<and> transport_calls res = []"
    by simp
next
  assume a: "SessionObject tc = None
       \<and> (\<exists>h1. buildAuthRequest lib json_encode tc h = Inr (h1, Inl berr))"
  then obtain h1 where b: "buildAuthRequest lib json_encode tc h = Inr (h1, Inl berr)"
    by blast
  have "Cookie_RoundTrip transport' lib json_encode authClient_Do tc h req
      = Inr (tc, RTError (NoSessionObject (FailedToCreateAuthRequest berr)))"
    using a b by (simp add: Cookie_RoundTrip_def setSessionObject_def)
  then show "\<exists>res. Cookie_RoundTrip transport' lib json_encode authClient_Do tc h req = Inr (tc, res)
         \<and> res = RTError (NoSessionObject (FailedToCreateAuthRequest berr)) \<and> transport_calls res = []"
    by simp
next
  assume a: "SessionObject tc = None
       \<and> (\<exists>h1 areq. buildAuthRequest lib json_encode tc h = Inr (h1, Inr areq)
              \<and> authClient_Do h1 areq = Inl derr)"
  then obtain h1 areq where b: "buildAuthRequest lib json_encode tc h = Inr (h1, Inr areq)"
    and d: "authClient_Do h1 areq = Inl derr"
    by blast
  have "Cookie_RoundTrip transport' lib json_encode authClient_Do tc h req
      = Inr (tc, RTError (NoSessionObject (FailedToAuthenticate derr)))"
    using a b d by (simp add: Cookie_RoundTrip_def setSessionObject_def)
  then show "\<exists>res. Cookie_RoundTrip transport' lib json_encode authClient_Do tc h req = Inr (tc, res)
         \<and> res = RTError (NoSessionObject (FailedToAuthenticate derr)) \<and> transport_calls res = []"
    by simp
next
  assume a: "header_ok h (Header r) \<and> SessionObject tc = None
       \<and> (\<exists>h1 areq. buildAuthRequest lib json_encode tc h = Inr (h1, Inr areq)
              \<and> authClient_Do h1 areq = Inr resp)"
  then obtain h1 areq where ok: "header_ok h (Header r)" and none: "SessionObject tc = None"
    and b: "buildAuthRequest lib json_encode tc h = Inr (h1, Inr areq)"
    and d: "authClient_Do h1 areq = Inr resp"
    by blast
  from Cookie_RoundTrip_login_answered
      [where authClient_Do = authClient_Do and transport = transport', OF ok none b d]
  obtain req2 h3 where
    run: "Cookie_RoundTrip transport' lib json_encode authClient_Do tc h (Some r)
        = Inr (tc\<lparr>SessionObject := Some (AuthCookies resp)\<rparr>, RTDelegated req2 h3 (transport' h3 req2))"
    and cl: "req2 = r\<lparr>Header := Header req2\<rparr>"
    and vals: "\<forall>k. header_values h3 (Header req2) k =
               (if k = ''Cookie'' \<and> filter (\<lambda>c. Value c \<noteq> []) (AuthCookies resp) \<noteq> []
                then Some [cookie_line lib (Header_Get h (Header r) ''Cookie'')
                             (filter (\<lambda>c. Value c \<noteq> []) (AuthCookies resp))]
                else header_values h (Header r) k)"
    by blast
  show "\<exists>req2 h3 res. Cookie_RoundTrip transport' lib json_encode authClient_Do tc h (Some r)
            = Inr (tc\<lparr>SessionObject := Some (AuthCookies resp)\<rparr>, res)
         \<and> res = RTDelegated req2 h3 (transport' h3 req2)
         \<and> transport_calls res = [(req2, h3)]
         \<and> req2 = r\<lparr>Header := Header req2\<rparr>
         \<and> (\<forall>k. header_values h3 (Header req2) k =
               (if k = ''Cookie'' \<and> filter (\<lambda>c. Value c \<noteq> []) (AuthCookies resp) \<noteq> []
                then Some [cookie_line lib (Header_Get h (Header r) ''Cookie'')
                             (filter (\<lambda>c. Value c \<noteq> []) (AuthCookies resp))]
                else header_values h (Header r) k))"
    apply (rule exI [of _ req2])
    apply (rule exI [of _ h3])
    apply (rule exI [of _ "RTDelegated req2 h3 (transport' h3 req2)"])
    using run cl vals by simp
qed

text \<open>
  The amended statement at four inputs: a signer that fails; a login URL that does not
  parse; a login call whose connection is refused; and a login answered 200 with the
  cookies \<open>JSESSIONID=abc\<close> and \<open>empty\<close>, after which the one request handed on carries
  \<open>JSESSIONID=abc\<close>.
\<close>

theorem C7_no_request_sent_on_failure_amended_witness:
  "JWT_RoundTrip demo_transport failing_SignedString id id 5 7 demo_jwt_transport
       demo_heap_url (Some demo_request_url)
     = Inr (RTError (JWTSigningError ''hash function unavailable''))
   \<and> Cookie_RoundTrip demo_transport demo_lib demo_json_encode demo_login_accepted
       (demo_cookie_transport\<lparr>AuthURL := '':''\<rparr>) demo_heap (Some demo_request)
     = Inr (demo_cookie_transport\<lparr>AuthURL := '':''\<rparr>,
            RTError (NoSessionObject (FailedToCreateAuthRequest
              (FailedToCreateRequest (URLError MissingProtocolScheme)))))
   \<and> Cookie_RoundTrip demo_transport demo_lib demo_json_encode demo_login_refused demo_cookie_transport
       demo_heap (Some demo_request)
     = Inr (demo_cookie_transport, RTError (NoSessionObject (FailedToAuthenticate ''connection refused'')))
   \<and> (\<exists>req2 h3. Cookie_RoundTrip demo_transport demo_lib demo_json_encode demo_login_accepted
           demo_cookie_transport demo_heap (Some demo_request)
         = Inr (demo_cookie_transport\<lparr>SessionObject := Some demo_cookies\<rparr>,
                RTDelegated req2 h3 (demo_transport h3 req2))
       \<and> header_values h3 (Header req2) ''Cookie'' = Some [''JSESSIONID=abc''])"
proof -
  have u: "URL demo_request_url = Some 0"
    by (simp add: demo_request_url_def)
  have s: "failing_SignedString ''HS256''
            (token_claims demo_jwt_transport 5 7
               (createQueryStringHash id id (Method demo_request_url) (urls demo_heap_url 0)))
            (Secret demo_jwt_transport) = Inl ''hash function unavailable''"
    by (simp add: failing_SignedString_def)
  have n: "SessionObject demo_cookie_transport = None"
    by (simp add: demo_cookie_transport_def)
  have n': "SessionObject (demo_cookie_transport\<lparr>AuthURL := '':''\<rparr>) = None"
    by (simp add: demo_cookie_transport_def)
  have refused: "\<exists>h1 areq. buildAuthRequest demo_lib demo_json_encode demo_cookie_transport demo_heap
        = Inr (h1, Inr areq) \<and> demo_login_refused h1 areq = Inl ''connection refused''"
    using demo_buildAuthRequest by (simp add: demo_login_refused_def)
  have accepted: "\<exists>h1 areq. buildAuthRequest demo_lib demo_json_encode demo_cookie_transport demo_heap
        = Inr (h1, Inr areq)
      \<and> demo_login_accepted h1 areq = Inr \<lparr>AuthStatusCode = 200, AuthCookies = demo_cookies\<rparr>"
    using demo_buildAuthRequest by (simp add: demo_login_accepted_def)
  have f: "filter (\<lambda>c. Value c \<noteq> []) demo_cookies \<noteq> []"
    by (simp add: demo_cookies_def)
  have line: "cookie_line demo_lib (Header_Get demo_heap (Header demo_request) ''Cookie'')
      (filter (\<lambda>c. Value c \<noteq> []) demo_cookies) = ''JSESSIONID=abc''"
    by code_simp
  have j: "JWT_RoundTrip demo_transport failing_SignedString id id 5 7 demo_jwt_transport
       demo_heap_url (Some demo_request_url)
     = Inr (RTError (JWTSigningError ''hash function unavailable''))"
    using C7_no_request_sent_on_failure_amended
      [where r = demo_request_url and ua = 0 and SignedString = failing_SignedString
         and tj = demo_jwt_transport and ?now1.0 = 5 and ?now2.0 = 7
         and ?sha256.0 = id and unicode_upper = id and h = demo_heap_url
         and err = "''hash function unavailable''"
         and transport = demo_transport, THEN conjunct1]
      u s
    by auto
  have b: "Cookie_RoundTrip demo_transport demo_lib demo_json_encode demo_login_accepted
       (demo_cookie_transport\<lparr>AuthURL := '':''\<rparr>) demo_heap (Some demo_request)
     = Inr (demo_cookie_transport\<lparr>AuthURL := '':''\<rparr>,
            RTError (NoSessionObject (FailedToCreateAuthRequest
              (FailedToCreateRequest (URLError MissingProtocolScheme)))))"
    using C7_no_request_sent_on_failure_amended
      [where tc = "demo_cookie_transport\<lparr>AuthURL := '':''\<rparr>" and lib = demo_lib
         and json_encode = demo_json_encode and authClient_Do = demo_login_accepted and h = demo_heap
         and berr = "FailedToCreateRequest (URLError MissingProtocolScheme)"
         and transport' = demo_transport and req = "Some demo_request",
         THEN conjunct2, THEN conjunct1]
      n' demo_buildAuthRequest_fails
    by auto
  have c: "Cookie_RoundTrip demo_transport demo_lib demo_json_encode demo_login_refused demo_cookie_transport
       demo_heap (Some demo_request)
     = Inr (demo_cookie_transport, RTError (NoSessionObject (FailedToAuthenticate ''connection refused'')))"
    using C7_no_request_sent_on_failure_amended
      [where tc = demo_cookie_transport and lib = demo_lib and json_encode = demo_json_encode
         and authClient_Do = demo_login_refused and h = demo_heap
         and derr = "''connection refused''" and transport' = demo_transport
         and req = "Some demo_request", THEN conjunct2, THEN conjunct2, THEN conjunct1]
      n refused
    by auto
  have d: "\<exists>req2 h3. Cookie_RoundTrip demo_transport demo_lib demo_json_encode demo_login_accepted
           demo_cookie_transport demo_heap (Some demo_request)
         = Inr (demo_cookie_transport\<lparr>SessionObject := Some demo_cookies\<rparr>,
                RTDelegated req2 h3 (demo_transport h3 req2))
       \<and> header_values h3 (Header req2) ''Cookie'' = Some [''JSESSIONID=abc'']"
    using C7_no_request_sent_on_failure_amended
      [where tc = demo_cookie_transport and lib = demo_lib and json_encode = demo_json_encode
         and authClient_Do = demo_login_accepted and h = demo_heap and r = demo_request
         and resp = "\<lparr>AuthStatusCode = 200, AuthCookies = demo_cookies\<rparr>"
         and transport' = demo_transport,
         THEN conjunct2, THEN conjunct2, THEN conjunct2]
      demo_ok n accepted f line
    by auto
  show ?thesis using j b c d by simp
qed


text \<open>
  C5, at the failing input. A client in session mode whose session holds the cookies
  \<open>JSESSIONID=abc\<close> and \<open>empty\<close> with an empty value: \<^verbatim>\<open>NewRawRequest\<close> attaches both, the
  empty one included, while \<^verbatim>\<open>CookieAuthTransport.RoundTrip\<close> on the same cookies
  attaches \<open>JSESSIONID=abc\<close> only.
\<close>

theorem C5_NewRawRequest_attaches_empty_cookie:
  "(case NewRawRequest demo_lib demo_session_client empty_heap (Some 0) ''GET'' ''rest/api/2/issue'' None
          ([] :: unit request_option list) of
      Inr (h, Some req, None) \<Rightarrow> header_values h (Header req) ''Cookie''
    | _ \<Rightarrow> None) = Some [''JSESSIONID=abc; empty='']
   \<and> (case Cookie_RoundTrip demo_transport demo_lib demo_json_encode demo_login_refused
          (demo_cookie_transport\<lparr>SessionObject := Some demo_cookies\<rparr>) demo_heap (Some demo_request) of
      Inr (t1, RTDelegated req2 h2 answer) \<Rightarrow> header_values h2 (Header req2) ''Cookie''
    | _ \<Rightarrow> None) = Some [''JSESSIONID=abc'']"
  by code_simp

subsection \<open>JWTAuthTransport\<close>

text \<open>
  C2, amended. For every request with a URL, when signing succeeds,
  \<^verbatim>\<open>JWTAuthTransport.RoundTrip\<close> hands the underlying transport a clone of the request
  whose \<open>Authorization\<close> header is \<open>JWT\<close>, a space and the token signed in this call
  with HS256 and the secret; the other headers and the source request are as they were.
  The claims of the token are \<open>iss\<close>, the issuer; \<open>iat\<close>, the Unix second of the first
  reading of the clock; \<open>exp\<close>, the Unix second of the second reading plus 59; and \<open>qsh\<close>,
  the hexadecimal SHA-256 of the canonical request. When both readings fall in the same
  second, \<open>exp = iat + 59\<close>.
\<close>

theorem C2_token_minted_per_request_amended:
  assumes ok: "header_ok h (Header r)" and url: "URL r = Some ua"
    and sign: "SignedString ''HS256''
        (token_claims t now1 now2 (createQueryStringHash sha256 unicode_upper (Method r) (urls h ua)))
        (Secret t) = Inr jwtStr"
  shows "\<exists>req2 h2.
      JWT_RoundTrip transport SignedString sha256 unicode_upper now1 now2 t h (Some r)
        = Inr (RTDelegated req2 h2 (transport h2 req2))
      \<and> req2 = r\<lparr>Header := Header req2\<rparr> \<and> Header req2 \<noteq> Header r
      \<and> header_values h2 (Header req2) ''Authorization'' = Some [''JWT '' @ jwtStr]
      \<and> (\<forall>k. k \<noteq> ''Authorization'' \<longrightarrow>
             header_values h2 (Header req2) k = header_values h (Header r) k)
      \<and> (\<forall>k. header_values h2 (Header r) k = header_values h (Header r) k)
      \<and> token_claims t now1 now2 (createQueryStringHash sha256 unicode_upper (Method r) (urls h ua))
          = \<lparr>iss = Issuer t, iat = Unix now1, exp = Unix now2 + 59,
             qsh = hex_EncodeToString (sha256 (canonicalizeRequest unicode_upper (Method r) (urls h ua)))\<rparr>
      \<and> (Unix now1 = Unix now2 \<longrightarrow>
            exp (token_claims t now1 now2 (createQueryStringHash sha256 unicode_upper (Method r) (urls h ua)))
            = iat (token_claims t now1 now2 (createQueryStringHash sha256 unicode_upper (Method r) (urls h ua))) + 59)"
proof -
  let ?a2 = "map_count h"
  let ?req2 = "r\<lparr>Header := Some ?a2\<rparr>"
  let ?claims = "token_claims t now1 now2 (createQueryStringHash sha256 unicode_upper (Method r) (urls h ua))"
  from cloneRequest_props [OF ok] obtain h1 where
    res: "cloneRequest h (Some r) = Inr (?req2, h1)"
    and sep: "separate h1 (Some ?a2) (Header r)"
    and vc: "\<forall>k. header_values h1 (Some ?a2) k = header_values h (Header r) k"
    and vs: "\<forall>k. header_values h1 (Header r) k = header_values h (Header r) k"
    and u: "urls h1 = urls h"
    by blast
  have ok1: "header_ok h1 (Some ?a2)" using sep by (simp add: separate_def)
  from Header_Set_values [OF ok1, of "''Authorization''" "''JWT '' @ jwtStr"] obtain h2 where
    set: "Header_Set h1 (Some ?a2) ''Authorization'' (''JWT '' @ jwtStr) = Inr h2"
    and fr: "frame h1 h2 (Some ?a2)"
    and v2: "\<forall>k'. header_values h2 (Some ?a2) k' =
        (if k' = ''Authorization'' then Some [''JWT '' @ jwtStr] else header_values h1 (Some ?a2) k')"
    by blast
  have run: "JWT_RoundTrip transport SignedString sha256 unicode_upper now1 now2 t h (Some r)
        = Inr (RTDelegated ?req2 h2 (transport h2 ?req2))"
    using url sign set by (simp add: JWT_RoundTrip_def res u Let_def)
  have ne: "Some ?a2 \<noteq> Header r"
    using ok by (cases "Header r") (auto simp: header_ok_def)
  have src: "\<forall>k. header_values h2 (Header r) k = header_values h (Header r) k"
    using frame_preserves_other(2) [OF sep fr] vs by simp
  have unix: "Unix (now2 + 59000000000) = Unix now2 + 59"
    using div_mult_self1 [of "1000000000 :: int" now2 59] by (simp add: Unix_def)
  have claims: "?claims = \<lparr>iss = Issuer t, iat = Unix now1, exp = Unix now2 + 59,
             qsh = hex_EncodeToString (sha256 (canonicalizeRequest unicode_upper (Method r) (urls h ua)))\<rparr>"
    by (simp add: token_claims_def Let_def Time_Add_def Second_def unix createQueryStringHash_def)
  have same: "Unix now1 = Unix now2 \<longrightarrow> exp ?claims = iat ?claims + 59"
    by (simp add: claims)
  show ?thesis
    apply (rule exI [of _ ?req2])
    apply (rule exI [of _ h2])
    using run ne v2 vc src claims same by simp
qed

text \<open>
  C2, counterexample. The clock reads 0.999999999 s for \<open>iat\<close> and 1.000000000 s for
  \<open>exp\<close>: the token signed and sent has \<open>iat = 0\<close> and \<open>exp = 60\<close>, not \<open>iat + 59\<close>.
\<close>

theorem C2_counterexample_expiry_crosses_second:
  "(case JWT_RoundTrip demo_transport demo_SignedString id id 999999999 1000000000
           demo_jwt_transport demo_heap_url (Some demo_request_url) of
      Inr (RTDelegated req2 h2 answer) \<Rightarrow> header_values h2 (Header req2) ''Authorization''
    | _ \<Rightarrow> None) = Some [''JWT token-exp-is-not-iat-plus-59'']
   \<and> iat (token_claims demo_jwt_transport 999999999 1000000000 []) = 0
   \<and> exp (token_claims demo_jwt_transport 999999999 1000000000 []) = 60"
  by code_simp

lemma demo_url_ok: "header_ok demo_heap_url (Header demo_request_url)"
  by (simp add: header_ok_def demo_heap_url_def demo_request_url_def demo_heap_def demo_request_def empty_heap_def)

theorem C2_token_minted_per_request_amended_witness:
  "header_ok demo_heap_url (Header demo_request_url) \<and> URL demo_request_url = Some 0
   \<and> (\<exists>req2 h2.
      JWT_RoundTrip demo_transport demo_SignedString id id 1700000000000000005 1700000000000000007
          demo_jwt_transport demo_heap_url (Some demo_request_url)
        = Inr (RTDelegated req2 h2 (demo_transport h2 req2))
      \<and> header_values h2 (Header req2) ''Authorization'' = Some [''JWT token-exp-is-iat-plus-59'']
      \<and> header_values h2 (Header demo_request_url) ''Authorization'' = None)"
proof -
  have u: "URL demo_request_url = Some 0"
    by (simp add: demo_request_url_def demo_request_def)
  have s: "demo_SignedString ''HS256''
        (token_claims demo_jwt_transport 1700000000000000005 1700000000000000007
           (createQueryStringHash id id (Method demo_request_url) (urls demo_heap_url 0)))
        (Secret demo_jwt_transport) = Inr ''token-exp-is-iat-plus-59''"
    by code_simp
  have a: "header_values demo_heap_url (Header demo_request_url) ''Authorization'' = None"
    by code_simp
  show ?thesis
    using C2_token_minted_per_request_amended
      [where h = demo_heap_url and r = demo_request_url and ua = 0 and SignedString = demo_SignedString
         and t = demo_jwt_transport and ?now1.0 = 1700000000000000005 and ?now2.0 = 1700000000000000007
         and ?sha256.0 = id and unicode_upper = id and jwtStr = "''token-exp-is-iat-plus-59''"
         and transport = demo_transport, OF demo_url_ok u s]
      demo_url_ok u a
    by auto
qed

section \<open>Theorems about NewClient and NewRawRequest\<close>

text \<open>\<^verbatim>\<open>NewClient\<close> parses the base URL with a slash appended when it does not end in
  one: the client of \<open>s\<close> is the client of \<open>s/\<close>.\<close>

lemma HasSuffix_snoc: "HasSuffix (s @ [c]) [c]"
  by (simp add: HasSuffix_def)

lemma NewClient_appends_slash:
  assumes "\<not> HasSuffix s ''/''"
  shows "NewClient lib s = NewClient lib (s @ ''/'')"
  using assms HasSuffix_snoc [of s "CHR ''/''"] by (simp add: NewClient_def)

subsection \<open>A leading slash on a path that needs no raw-path hint\<close>

lemma Cut_slash_Cons:
  assumes "sep \<noteq> CHR ''/''"
  shows "Cut (CHR ''/'' # s) sep =
     (CHR ''/'' # fst (Cut s sep), fst (snd (Cut s sep)), snd (snd (Cut s sep)))"
  using assms by (simp add: Cut_def)

lemma getScheme_from_no_scheme:
  "getScheme_from raw seen s = Inr ([], r) \<Longrightarrow> r = raw"
proof (induction s arbitrary: seen)
  case Nil
  then show ?case by simp
next
  case (Cons c cs)
  then show ?case
    by (auto split: if_splits)
qed

lemma getScheme_slash: "getScheme (CHR ''/'' # s) = Inr ([], CHR ''/'' # s)"
  by (simp add: getScheme_def is_lower_def is_upper_def is_digit_def byte_def)

lemma escape_slash_Cons: "escape (CHR ''/'' # s) encodePath = CHR ''/'' # escape s encodePath"
  by (simp add: escape_def escape_byte_def shouldEscape_def is_alnum_def is_lower_def is_upper_def
      is_digit_def byte_def)

lemma unescape_slash_Cons:
  "unescape (CHR ''/'' # s) mode =
     (case unescape s mode of Inl e \<Rightarrow> Inl e | Inr t \<Rightarrow> Inr (CHR ''/'' # t))"
  by simp

lemma setPath_slash:
  assumes "setPath u rest = Inr u'" and "RawPath u' = []"
  shows "setPath u (CHR ''/'' # rest) = Inr (u'\<lparr>Path := CHR ''/'' # Path u'\<rparr>)"
proof -
  from assms(1) obtain path where un: "unescape rest encodePath = Inr path"
    and u': "u' = u\<lparr>Path := path, RawPath := (if rest = escape path encodePath then [] else rest)\<rparr>"
    by (auto simp: setPath_def split: sum.splits)
  have eq: "rest = escape path encodePath"
    using assms(2) u' un by (auto simp: escape_def split: if_splits)
  have un': "unescape (CHR ''/'' # rest) encodePath = Inr (CHR ''/'' # path)"
    by (simp add: un)
  have esc: "escape (CHR ''/'' # path) encodePath = CHR ''/'' # rest"
    using eq by (simp only: escape_slash_Cons)
  have "setPath u (CHR ''/'' # rest) = Inr (u\<lparr>Path := CHR ''/'' # path, RawPath := []\<rparr>)"
    by (simp add: setPath_def un' esc del: unescape.simps)
  moreover have "u' = u\<lparr>Path := path, RawPath := []\<rparr>"
    using u' eq by simp
  ultimately show ?thesis by simp
qed

lemma CTL_slash: "stringContainsCTLByte (CHR ''/'' # s) = stringContainsCTLByte s"
  by (simp add: stringContainsCTLByte_def byte_def)

lemma HasSuffix_q_slash: "HasSuffix (CHR ''/'' # s) ''?'' = HasSuffix s ''?''"
  by (cases s rule: rev_cases) (simp_all add: HasSuffix_def)

lemma HasPrefix_slash_iff: "HasPrefix s ''/'' = (\<exists>t. s = CHR ''/'' # t)"
  by (cases s) (auto simp: HasPrefix_def)

lemma ToLower_ascii_Nil: "ToLower_ascii s = [] \<longleftrightarrow> s = []"
  by (simp add: ToLower_ascii_def)

lemma setPath_Scheme: "setPath u p = Inr u' \<Longrightarrow> Scheme u' = Scheme u"
  by (auto simp: setPath_def split: sum.splits)

lemma not_slash_prefix_butlast:
  assumes "\<not> HasPrefix u ''/''"
  shows "\<not> HasPrefix (butlast u) ''/''"
proof (cases u)
  case Nil
  then show ?thesis by (simp add: HasPrefix_def)
next
  case (Cons c cs)
  then show ?thesis using assms by (cases cs) (simp_all add: HasPrefix_def)
qed

lemma not_slash_prefix_Cut:
  assumes "\<not> HasPrefix u ''/''"
  shows "\<not> HasPrefix (fst (Cut u sep)) ''/''"
proof (cases u)
  case Nil
  then show ?thesis by (simp add: HasPrefix_def Cut_def)
next
  case (Cons c cs)
  then show ?thesis using assms by (simp add: HasPrefix_def Cut_def)
qed

lemma HasPrefix_two_slashes: "HasPrefix (CHR ''/'' # s) ''//'' = HasPrefix s ''/''"
  by (cases s) (simp_all add: HasPrefix_def)

lemma HasPrefix_two_one: "HasPrefix s ''//'' \<Longrightarrow> HasPrefix s ''/''"
  by (cases s) (simp_all add: HasPrefix_def)

lemma HasPrefix_slash_Cons: "HasPrefix (CHR ''/'' # s) ''/''"
  by (simp add: HasPrefix_def)

lemma parse_relative:
  assumes ctl: "\<not> stringContainsCTLByte u" and star: "u \<noteq> ''*''"
    and gs: "getScheme u = Inr ([], u)"
    and force: "force = (HasSuffix u ''?'' \<and> Count u CHR ''?'' = 1)"
    and rest: "rest = (if force then butlast u else fst (Cut u CHR ''?''))"
    and rq: "rq = (if force then [] else fst (snd (Cut u CHR ''?'')))"
    and na: "\<not> HasPrefix rest ''//''"
  shows "parse pa u =
    (if \<not> HasPrefix rest ''/'' \<and> Contains (fst (Cut rest CHR ''/'')) CHR '':''
     then Inl FirstPathSegmentColon
     else setPath (empty_URL\<lparr>Scheme := [], ForceQuery := force, RawQuery := rq\<rparr>) rest)"
proof -
  have f: "(HasSuffix u ''?'' \<and> Count u CHR ''?'' = 1) = force" using force by simp
  have r: "(if force then butlast u else fst (Cut u CHR ''?'')) = rest" using rest by simp
  have q: "(if force then [] else fst (snd (Cut u CHR ''?''))) = rq" using rq by simp
  show ?thesis
    unfolding parse_def
    by (simp only: ctl star gs if_False sum.case prod.case Let_def f r q ToLower_ascii_def list.map)
       (simp add: na)
qed

lemma parse_leading_slash:
  assumes p: "parse pa u = Inr rel" and sch: "Scheme rel = []" and raw: "RawPath rel = []"
    and ns: "\<not> HasPrefix u ''/''" and star: "u \<noteq> ''*''"
  shows "parse pa (CHR ''/'' # u) = Inr (rel\<lparr>Path := CHR ''/'' # Path rel\<rparr>)"
proof -
  define force where "force = (HasSuffix u ''?'' \<and> Count u CHR ''?'' = 1)"
  define rest where "rest = (if force then butlast u else fst (Cut u CHR ''?''))"
  define rq where "rq = (if force then [] else fst (snd (Cut u CHR ''?'')))"
  have ctl: "\<not> stringContainsCTLByte u"
    using p by (auto simp: parse_def split: if_splits)
  obtain scheme rest0 where gs: "getScheme u = Inr (scheme, rest0)"
    using p ctl star by (auto simp: parse_def split: sum.splits)
  have sch_url: "Scheme rel = ToLower_ascii scheme"
    using p ctl star gs
    by (auto simp: parse_def Let_def split: if_splits sum.splits prod.splits dest: setPath_Scheme)
  then have "ToLower_ascii scheme = []" using sch by simp
  then have "scheme = []" by (simp only: ToLower_ascii_Nil)
  then have r0: "rest0 = u"
    using gs getScheme_from_no_scheme [of u "[]" u rest0] by (simp add: getScheme_def)
  have gs': "getScheme u = Inr ([], u)" using gs \<open>scheme = []\<close> r0 by simp
  have nrest: "\<not> HasPrefix rest ''/''"
    using ns by (simp add: rest_def not_slash_prefix_butlast not_slash_prefix_Cut)
  then have na: "\<not> HasPrefix rest ''//''" using HasPrefix_two_one by blast
  let ?url = "empty_URL\<lparr>Scheme := [], ForceQuery := force, RawQuery := rq\<rparr>"
  have "parse pa u =
        (if \<not> HasPrefix rest ''/'' \<and> Contains (fst (Cut rest CHR ''/'')) CHR '':''
         then Inl FirstPathSegmentColon else setPath ?url rest)"
    using ctl star gs' force_def rest_def rq_def na by (rule parse_relative)
  then have sp: "setPath ?url rest = Inr rel"
    using p by (auto split: if_splits)
  have sp': "setPath ?url (CHR ''/'' # rest) = Inr (rel\<lparr>Path := CHR ''/'' # Path rel\<rparr>)"
    using sp raw by (rule setPath_slash)
  have une: "force \<Longrightarrow> u \<noteq> []"
    by (auto simp: force_def HasSuffix_def)
  have ctl': "\<not> stringContainsCTLByte (CHR ''/'' # u)" using ctl by (simp add: CTL_slash)
  have star': "CHR ''/'' # u \<noteq> ''*''" by simp
  have force': "force = (HasSuffix (CHR ''/'' # u) ''?'' \<and> Count (CHR ''/'' # u) CHR ''?'' = 1)"
    by (simp add: force_def HasSuffix_q_slash Count_def)
  have rest': "CHR ''/'' # rest = (if force then butlast (CHR ''/'' # u) else fst (Cut (CHR ''/'' # u) CHR ''?''))"
    using une by (simp add: rest_def Cut_slash_Cons)
  have rq': "rq = (if force then [] else fst (snd (Cut (CHR ''/'' # u) CHR ''?'')))"
    by (simp add: rq_def Cut_slash_Cons)
  have na': "\<not> HasPrefix (CHR ''/'' # rest) ''//''"
    using nrest by (simp add: HasPrefix_two_slashes)
  have "parse pa (CHR ''/'' # u) =
        (if \<not> HasPrefix (CHR ''/'' # rest) ''/'' \<and> Contains (fst (Cut (CHR ''/'' # rest) CHR ''/'')) CHR '':''
         then Inl FirstPathSegmentColon else setPath ?url (CHR ''/'' # rest))"
    using ctl' star' getScheme_slash force' rest' rq' na' by (rule parse_relative)
  then show ?thesis using sp' by (simp add: HasPrefix_slash_Cons)
qed

lemma setFragment_fields:
  assumes "setFragment u f = Inr u'"
  shows "Scheme u' = Scheme u" and "RawPath u' = RawPath u" and "Path u' = Path u"
    and "setFragment (u\<lparr>Path := q\<rparr>) f = Inr (u'\<lparr>Path := q\<rparr>)"
  using assms by (auto simp: setFragment_def split: sum.splits)

lemma Parse_leading_slash:
  assumes P: "Parse pa p = Inr rel" and sch: "Scheme rel = []" and raw: "RawPath rel = []"
    and ns: "\<not> HasPrefix p ''/''" and star: "fst (Cut p CHR ''#'') \<noteq> ''*''"
  shows "Parse pa (CHR ''/'' # p) = Inr (rel\<lparr>Path := CHR ''/'' # Path rel\<rparr>)"
proof -
  obtain u frag b where c: "Cut p CHR ''#'' = (u, frag, b)"
    by (cases "Cut p CHR ''#''") auto
  have c': "Cut (CHR ''/'' # p) CHR ''#'' = (CHR ''/'' # u, frag, b)"
    by (simp add: Cut_slash_Cons c)
  obtain url0 where p0: "parse pa u = Inr url0"
    using P c by (auto simp: Parse_def split: sum.splits)
  have nu: "\<not> HasPrefix u ''/''"
    using not_slash_prefix_Cut [OF ns, of "CHR ''#''"] c by simp
  have su: "u \<noteq> ''*''" using star c by simp
  show ?thesis
  proof (cases "frag = []")
    case True
    then have "rel = url0" using P c p0 by (simp add: Parse_def)
    then have "parse pa (CHR ''/'' # u) = Inr (rel\<lparr>Path := CHR ''/'' # Path rel\<rparr>)"
      using parse_leading_slash [OF p0 _ _ nu su] sch raw by simp
    then show ?thesis using True by (simp add: Parse_def c')
  next
    case False
    then have sf: "setFragment url0 frag = Inr rel" using P c p0 by (simp add: Parse_def)
    note f = setFragment_fields [OF sf]
    have "parse pa (CHR ''/'' # u) = Inr (url0\<lparr>Path := CHR ''/'' # Path url0\<rparr>)"
      using parse_leading_slash [OF p0 _ _ nu su] sch raw f(1,2) by simp
    then show ?thesis using False f(3,4) by (simp add: Parse_def c')
  qed
qed

text \<open>
  Where the leading slash does not matter: a relative reference without a scheme whose
  path text is the default encoding of its decoded path (\<^verbatim>\<open>url.Parse\<close> keeps no
  \<open>RawPath\<close> for it) resolves to the same URL, and gives the same request, with and
  without a leading slash.
\<close>

lemma resolve_request_URL_leading_slash:
  assumes "Parse (parseAuthority lib) p = Inr rel" and "Scheme rel = []" and "RawPath rel = []"
    and "\<not> HasPrefix p ''/''" and "fst (Cut p CHR ''#'') \<noteq> ''*''"
  shows "resolve_request_URL lib c (CHR ''/'' # p) = resolve_request_URL lib c p"
  using Parse_leading_slash [OF assms] assms(1)
  by (simp add: resolve_request_URL_def TrimLeft_def)

lemma NewRawRequest_leading_slash_plain_path:
  assumes "Parse (parseAuthority lib) p = Inr rel" and "Scheme rel = []" and "RawPath rel = []"
    and "\<not> HasPrefix p ''/''" and "fst (Cut p CHR ''#'') \<noteq> ''*''"
  shows "NewRawRequest lib c h ctx method (CHR ''/'' # p) body options
       = NewRawRequest lib c h ctx method p body options"
  by (simp only: NewRawRequest_def resolve_request_URL_leading_slash [OF assms])

lemma NewRawRequest_leading_slash_demo:
  "NewRawRequest demo_lib c h ctx method ''/rest/api/2/issue/10000?fields=summary'' body options
       = NewRawRequest demo_lib c h ctx method ''rest/api/2/issue/10000?fields=summary'' body options"
proof (rule NewRawRequest_leading_slash_plain_path)
  show "Parse (parseAuthority demo_lib) ''rest/api/2/issue/10000?fields=summary''
      = Inr (empty_URL\<lparr>Path := ''rest/api/2/issue/10000'', RawQuery := ''fields=summary''\<rparr>)"
    by code_simp
  show "Scheme (empty_URL\<lparr>Path := ''rest/api/2/issue/10000'', RawQuery := ''fields=summary''\<rparr>) = []"
    by (simp add: empty_URL_def)
  show "RawPath (empty_URL\<lparr>Path := ''rest/api/2/issue/10000'', RawQuery := ''fields=summary''\<rparr>) = []"
    by (simp add: empty_URL_def)
  show "\<not> HasPrefix ''rest/api/2/issue/10000?fields=summary'' ''/''"
    by (simp add: HasPrefix_def)
  show "fst (Cut ''rest/api/2/issue/10000?fields=summary'' CHR ''#'') \<noteq> ''*''"
    by (simp add: Cut_def)
qed

subsection \<open>A leading slash on a path with an escaped slash\<close>

text \<open>
  C9, at the failing input. The client of the base URL \<open>http://jira.example/base\<close> has
  the base path \<open>/base/\<close>. The relative path \<open>issue/a%2Fb\<close> resolves to
  \<open>http://jira.example/base/issue/a%2Fb\<close>; the same path with a leading slash resolves
  to \<open>http://jira.example/base/issue/a/b\<close>. The slash is trimmed from \<open>Path\<close> only:
  \<open>RawPath\<close> keeps it, stops being an encoding of \<open>Path\<close>, and the escaped slash is lost.
\<close>

theorem C9_leading_slash_changes_escaped_path:
  "(case NewClient demo_lib ''http://jira.example/base'' of
      Inr c \<Rightarrow>
        (Path (baseURL c),
         (case NewRawRequest demo_lib c empty_heap (Some 0) ''GET'' ''issue/a%2Fb'' None
                 ([] :: unit request_option list) of
            Inr (h, Some req, None) \<Rightarrow> request_URL_text demo_lib h req
          | _ \<Rightarrow> []),
         (case NewRawRequest demo_lib c empty_heap (Some 0) ''GET'' ''/issue/a%2Fb'' None
                 ([] :: unit request_option list) of
            Inr (h, Some req, None) \<Rightarrow> request_URL_text demo_lib h req
          | _ \<Rightarrow> []))
    | Inl e \<Rightarrow> ([], [], []))
   = (''/base/'', ''http://jira.example/base/issue/a%2Fb'', ''http://jira.example/base/issue/a/b'')"
  by code_simp

end
